theory Spec2Isabelle
  imports Complex_Main "HOL-Library.Word"
begin

section \<open>The proxy coordinator (proxy/proxy.go)\<close>

text \<open>
  A shallow embedding of \<^verbatim>\<open>proxy/proxy.go\<close>. Conventions:
  \<^item> Go's \<^verbatim>\<open>int32\<close> and \<^verbatim>\<open>int64\<close> are 32 and 64 bit words, read as signed numbers
    by \<open>sint\<close>; arithmetic on them wraps as Go's does.
  \<^item> A \<^verbatim>\<open>float64\<close> of the configuration is the real number it denotes (the
    configuration is decoded from JSON, which has neither NaN nor infinities).
  \<^item> A function that can end the process returns \<open>abort + 'a\<close>: \<open>Fatal\<close> for
    \<^verbatim>\<open>log.Fatal\<close>, \<open>Panic\<close> for a run-time panic.
  \<^item> What a function does to the outside (log lines, calls of collaborators, timers,
    goroutines started) is the list of effects it returns, in program order.
  \<^item> Code that proxy.go calls but does not contain is a parameter of the model.
\<close>

subsection \<open>Machine types, aborts and effects\<close>

type_synonym int32 = "32 word"
type_synonym int64 = "64 word"
type_synonym float64 = real

text \<open>\<^verbatim>\<open>time.Duration\<close> and points in time, both in nanoseconds.\<close>

type_synonym Duration = int
type_synonym Time = int

datatype abort = Fatal string | Panic string

datatype timer_id = refreshTimer | cleanTimer | checkTimer | stateUpdateTimer

text \<open>
  The goroutines \<^verbatim>\<open>NewProxy\<close> starts. A timer loop is a closure: it carries the
  interval variable its body reads when it resets its timer.
\<close>

datatype goroutine =
    ListenSP
  | ListenES
  | cleanLoop Duration
  | refreshLoop Duration
  | checkLoop Duration
  | stateUpdateLoop Duration

text \<open>
  \<open>Log\<close> holds the format string of a \<^verbatim>\<open>log.Printf\<close> (its arguments are not
  recorded). \<open>HttpError msg code\<close> is \<^verbatim>\<open>http.Error(w, msg, code)\<close>.
\<close>

datatype effect =
    Log string
  | PolicyStart
  | Go goroutine
  | Call_fetchBlockTemplate
  | NewTimer timer_id Duration
  | TimerReset timer_id Duration
  | WriteNodeState string nat int
  | HttpError string nat

type_synonym 'a result = "effect list \<times> (abort + 'a)"

definition ret :: "'a \<Rightarrow> 'a result" where
  "ret x = ([], Inr x)"

definition emit :: "effect \<Rightarrow> unit result" where
  "emit e = ([e], Inr ())"

text \<open>\<^verbatim>\<open>log.Fatal(msg)\<close>: print the message, then \<^verbatim>\<open>os.Exit(1)\<close>.\<close>

definition log_Fatal :: "string \<Rightarrow> 'a result" where
  "log_Fatal msg = ([Log msg], Inl (Fatal msg))"

definition lift :: "abort + 'a \<Rightarrow> 'a result" where
  "lift r = ([], r)"

text \<open>Sequencing: nothing after an abort runs.\<close>

definition bind :: "'a result \<Rightarrow> ('a \<Rightarrow> 'b result) \<Rightarrow> 'b result" where
  "bind m f =
     (case m of
        (tr, Inl e) \<Rightarrow> (tr, Inl e)
      | (tr, Inr x) \<Rightarrow> (case f x of (tr', r) \<Rightarrow> (tr @ tr', r)))"

subsection \<open>Data\<close>

record WorkDiff =
  Difficulty :: int64
  PassDel :: bool
  IsDel :: bool

text \<open>
  The map \<^verbatim>\<open>workDiff\<close> holds pointers (\<^verbatim>\<open>map[string]*WorkDiff\<close>) and the cleanup
  sweep writes through them, so the objects live in a store of their own: a reference is
  nil or the address of an object, and every address holds an object (Go has no dangling
  pointer).
\<close>

datatype ref = Nil_ref | Ref nat

type_synonym store = "nat \<Rightarrow> WorkDiff"

text \<open>
  \<^verbatim>\<open>rpc.RPCClient\<close> belongs to another package; these are the fields proxy.go reads.
\<close>

record RPCClient =
  Name :: string
  Url :: string

text \<open>
  \<^verbatim>\<open>BlockTemplate\<close> is declared in another file of the package; proxy.go reads its
  height and its difficulty, both integers.
\<close>

record BlockTemplate =
  Height :: nat
  Difficulty :: int

text \<open>
  \<^verbatim>\<open>Config\<close> is declared in another file of the package. These records hold the
  fields proxy.go reads, nested as it reads them (\<^verbatim>\<open>cfg.Proxy.Stratum.Protocol\<close>).
\<close>

record Upstream_cfg =
  Name :: string
  Url :: string
  Timeout :: string

record Stratum_cfg =
  Enabled :: bool
  Protocol :: string
  MinDiffFloat :: float64
  MaxDiffFloat :: float64
  NonceSize :: int

record Proxy_cfg =
  Difficulty :: int64
  Stratum :: Stratum_cfg
  HashrateExpiration :: string
  BlockRefreshInterval :: string
  CleanInterval :: string
  StateUpdateInterval :: string
  HealthCheck :: bool
  MaxFails :: int64
  Listen :: string

record Config =
  Name :: string
  Proxy :: Proxy_cfg
  Upstream :: "Upstream_cfg list"
  UpstreamCheckInterval :: string

text \<open>
  \<^verbatim>\<open>ProxyServer\<close>. The atomic value \<^verbatim>\<open>blockTemplate\<close> is \<open>None\<close> until a template is
  stored. \<^verbatim>\<open>sessions\<close> is \<open>None\<close> while the Go map is nil; its elements are session
  pointers. Left out: the handles \<^verbatim>\<open>backend\<close> and \<^verbatim>\<open>policy\<close> (their calls are
  effects), the three mutexes (every operation below runs under its lock or is a single
  atomic access), and \<^verbatim>\<open>timeout\<close> and \<^verbatim>\<open>Jobs\<close>, which proxy.go never touches.
\<close>

record ProxyServer =
  config :: Config
  blockTemplate :: "BlockTemplate option"
  upstream :: int32
  upstreams :: "RPCClient list"
  diff :: string
  hashrateExpiration :: Duration
  failsCount :: int64
  sessions :: "nat set option"
  nonceSize :: int
  workDiff :: "string \<rightharpoonup> ref"
  minDiffFloat :: float64
  maxDiffFloat :: float64

subsection \<open>The sick counter\<close>

definition markSick :: "ProxyServer \<Rightarrow> ProxyServer" where
  "markSick s = s\<lparr>failsCount := failsCount s + 1\<rparr>"

definition isSick :: "ProxyServer \<Rightarrow> bool" where
  "isSick s =
     (let x = failsCount s in
      if HealthCheck (Proxy (config s)) \<and> sint (MaxFails (Proxy (config s))) \<le> sint x
      then True else False)"

definition markOk :: "ProxyServer \<Rightarrow> ProxyServer" where
  "markOk s = s\<lparr>failsCount := 0\<rparr>"

subsection \<open>The active upstream\<close>

text \<open>
  Indexing a slice with an \<^verbatim>\<open>int32\<close>: Go panics when the index is negative or not
  below the length.
\<close>

definition index :: "'a list \<Rightarrow> int32 \<Rightarrow> abort + 'a" where
  "index xs i =
     (if 0 \<le> sint i \<and> nat (sint i) < length xs then Inr (xs ! nat (sint i))
      else Inl (Panic ''index out of range''))"

definition rpc :: "ProxyServer \<Rightarrow> abort + RPCClient" where
  "rpc s = (let i = upstream s in index (upstreams s) i)"

text \<open>
  \<^verbatim>\<open>RPCClient.Check\<close> is a network probe of another package: \<open>Check i\<close> is what the
  call on \<^verbatim>\<open>s.upstreams[i]\<close> returns during this sweep. One turn of the loop of
  \<^verbatim>\<open>checkUpstreams\<close> on the pair (candidate, backup); \<^verbatim>\<open>int32(i)\<close> keeps the low 32
  bits of \<open>i\<close>.
\<close>

definition check_step :: "(nat \<Rightarrow> bool) \<Rightarrow> nat \<Rightarrow> int32 \<times> bool \<Rightarrow> int32 \<times> bool" where
  "check_step Check i cb =
     (case cb of (candidate, backup) \<Rightarrow>
        if Check i \<and> \<not> backup then (word_of_nat i, True) else (candidate, backup))"

definition checkUpstreams :: "(nat \<Rightarrow> bool) \<Rightarrow> ProxyServer \<Rightarrow> ProxyServer result" where
  "checkUpstreams Check s =
     (case fold (check_step Check) [0..<length (upstreams s)] (0, False) of
        (candidate, backup) \<Rightarrow>
          if upstream s \<noteq> candidate then
            bind (lift (index (upstreams s) candidate)) (\<lambda>c.
            bind (emit (Log ''Switching to %v upstream'')) (\<lambda>_.
            ret (s\<lparr>upstream := candidate\<rparr>)))
          else ret s)"

subsection \<open>The cleanup sweep\<close>

text \<open>
  The body of the range loop in the clean timer's goroutine, for the key \<open>k\<close>, on the
  store and the map. A key that is no longer in the map is not produced by the loop;
  reading \<^verbatim>\<open>v.IsDel\<close> through a nil pointer panics. The assignment
  \<^verbatim>\<open>proxy.workDiff[k].PassDel = false\<close> writes the object the entry points to.
\<close>

definition clean_entry :: "string \<Rightarrow> store \<times> (string \<rightharpoonup> ref) \<Rightarrow> abort + store \<times> (string \<rightharpoonup> ref)" where
  "clean_entry k hm =
     (case hm of (h, m) \<Rightarrow>
        (case m k of
           None \<Rightarrow> Inr (h, m)
         | Some Nil_ref \<Rightarrow> Inl (Panic ''nil pointer dereference'')
         | Some (Ref a) \<Rightarrow>
             (let v = h a in
              if IsDel v \<and> \<not> PassDel v then Inr (h, m(k := None))
              else if IsDel v then Inr (h(a := v\<lparr>PassDel := False\<rparr>), m)
              else Inr (h, m))))"

text \<open>
  The range loop. Go produces the keys of a map in an order of its choosing: \<open>ks\<close> is
  the order of this sweep, an enumeration of the map's keys.
\<close>

fun clean_range :: "string list \<Rightarrow> store \<times> (string \<rightharpoonup> ref) \<Rightarrow> abort + store \<times> (string \<rightharpoonup> ref)" where
  "clean_range [] hm = Inr hm"
| "clean_range (k # ks) hm =
     (case clean_entry k hm of Inl e \<Rightarrow> Inl e | Inr hm' \<Rightarrow> clean_range ks hm')"

text \<open>
  One turn of the clean timer's goroutine after its timer fired: the sweep, then
  \<^verbatim>\<open>cleanTimer.Reset(refreshIntv)\<close>, with the interval variable the closure holds.
\<close>

definition cleanTick ::
  "Duration \<Rightarrow> string list \<Rightarrow> store \<times> ProxyServer \<Rightarrow> (store \<times> ProxyServer) result" where
  "cleanTick refreshIntv ks hs =
     (case hs of (h, s) \<Rightarrow>
        bind (lift (clean_range ks (h, workDiff s))) (\<lambda>(h', m').
        bind (emit (TimerReset cleanTimer refreshIntv)) (\<lambda>_.
        ret (h', s\<lparr>workDiff := m'\<rparr>))))"

subsection \<open>Collaborators\<close>

text \<open>
  What proxy.go calls but does not define, as parameters of the model:
  \<^verbatim>\<open>policy.Start\<close>, \<^verbatim>\<open>util.GetTargetHex\<close>, \<^verbatim>\<open>rpc.NewRPCClient\<close> and
  \<^verbatim>\<open>util.MustParseDuration\<close> of other packages, each of which returns or ends the
  process (a malformed duration, a division by a zero difficulty), and the method
  \<^verbatim>\<open>fetchBlockTemplate\<close> of another file of this package, given by what it does to the
  server.
\<close>

record externals =
  policy_Start :: "Config \<Rightarrow> abort + unit"
  GetTargetHex :: "int64 \<Rightarrow> abort + string"
  NewRPCClient :: "string \<Rightarrow> string \<Rightarrow> string \<Rightarrow> abort + RPCClient"
  MustParseDuration :: "string \<Rightarrow> abort + Duration"
  fetchBlockTemplate :: "ProxyServer \<Rightarrow> ProxyServer"

subsection \<open>The timer loops\<close>

definition currentBlockTemplate :: "ProxyServer \<Rightarrow> BlockTemplate option" where
  "currentBlockTemplate s =
     (let t = blockTemplate s in if t \<noteq> None then t else None)"

text \<open>One turn of the refresh timer's goroutine.\<close>

definition refreshTick :: "externals \<Rightarrow> Duration \<Rightarrow> ProxyServer \<Rightarrow> ProxyServer result" where
  "refreshTick ext refreshIntv s =
     bind (emit Call_fetchBlockTemplate) (\<lambda>_.
     bind (ret (fetchBlockTemplate ext s)) (\<lambda>s'.
     bind (emit (TimerReset refreshTimer refreshIntv)) (\<lambda>_.
     ret s')))"

text \<open>One turn of the check timer's goroutine.\<close>

definition checkTick :: "(nat \<Rightarrow> bool) \<Rightarrow> Duration \<Rightarrow> ProxyServer \<Rightarrow> ProxyServer result" where
  "checkTick Check checkIntv s =
     bind (checkUpstreams Check s) (\<lambda>s'.
     bind (emit (TimerReset checkTimer checkIntv)) (\<lambda>_.
     ret s'))"

text \<open>
  One turn of the state-update timer's goroutine. \<open>err\<close> is what
  \<^verbatim>\<open>backend.WriteNodeState\<close> returns if this turn calls it (\<open>None\<close> is nil, no error);
  the call itself is the effect \<open>WriteNodeState\<close> with its three arguments. The
  closure's \<^verbatim>\<open>cfg\<close> is the configuration the server holds.
\<close>

definition stateUpdateTick ::
  "string option \<Rightarrow> Duration \<Rightarrow> ProxyServer \<Rightarrow> ProxyServer result" where
  "stateUpdateTick err stateUpdateIntv s =
     bind (case currentBlockTemplate s of
             None \<Rightarrow> ret s
           | Some t \<Rightarrow>
               bind (emit (WriteNodeState (Config.Name (config s)) (Height t)
                             (BlockTemplate.Difficulty t))) (\<lambda>_.
               (case err of
                  Some e \<Rightarrow>
                    bind (emit (Log ''Failed to write node state to backend: %v'')) (\<lambda>_.
                    ret (markSick s))
                | None \<Rightarrow> ret (markOk s)))) (\<lambda>s'.
     bind (emit (TimerReset stateUpdateTimer stateUpdateIntv)) (\<lambda>_.
     ret s'))"

subsection \<open>The notification endpoint\<close>

text \<open>
  \<^verbatim>\<open>Start\<close> serves one route: the function below, registered for the path \<^verbatim>\<open>/\<close>.
  The record is the request as that function reads it. On a POST it writes nothing, so
  the HTTP server answers 200; the peer address goes into the log line only.
\<close>

record Request =
  Method :: string
  RemoteAddr :: string

definition Start_handler :: "externals \<Rightarrow> ProxyServer \<Rightarrow> Request \<Rightarrow> ProxyServer result" where
  "Start_handler ext s r =
     (if Method r \<noteq> ''POST'' then
        bind (emit (HttpError (''rpc: POST method required, received '' @ Method r) 405)) (\<lambda>_.
        ret s)
      else
        bind (emit (Log ''Received new job notification from %v'')) (\<lambda>_.
        bind (emit Call_fetchBlockTemplate) (\<lambda>_.
        ret (fetchBlockTemplate ext s))))"

text \<open>
  \<^verbatim>\<open>http.Error\<close> of the Go library, by what it writes to the response writer: the
  status code, a plain-text content type, and the message followed by a newline as the
  body.
\<close>

record Response =
  StatusCode :: nat
  ContentType :: string
  Body :: string

definition http_Error :: "string \<Rightarrow> nat \<Rightarrow> Response" where
  "http_Error msg code =
     \<lparr>StatusCode = code, ContentType = ''text/plain; charset=utf-8'',
      Body = msg @ [CHR 0x0A]\<rparr>"

text \<open>
  What the HTTP server sends of a response the handler wrote: in answer to a HEAD
  request it sends the status line and the headers and drops the body.
\<close>

definition sent :: "Request \<Rightarrow> Response \<Rightarrow> Response" where
  "sent r w = (if Method r = ''HEAD'' then w\<lparr>Body := []\<rparr> else w)"

text \<open>
  The responses sent for the request \<open>r\<close> by a handler with the effects \<open>tr\<close>, and how
  often the handler called for a refresh.
\<close>

fun responses :: "Request \<Rightarrow> effect list \<Rightarrow> Response list" where
  "responses r [] = []"
| "responses r (HttpError msg code # tr) = sent r (http_Error msg code) # responses r tr"
| "responses r (e # tr) = responses r tr"

definition refreshes :: "effect list \<Rightarrow> nat" where
  "refreshes tr = length (filter (\<lambda>e. e = Call_fetchBlockTemplate) tr)"

subsection \<open>Construction\<close>

text \<open>
  In \<^verbatim>\<open>proxy.minDiffFloat < 0.1\<close> the constant is the \<^verbatim>\<open>float64\<close> nearest to one tenth.
\<close>

definition float64_0_1 :: float64 where
  "float64_0_1 = 3602879701896397 / 36028797018963968"

text \<open>\<^verbatim>\<open>NewProxy\<close>, lines 68 to 92: the instance name, the policy, the difficulty bounds.\<close>

definition NewProxy_config :: "externals \<Rightarrow> Config \<Rightarrow> ProxyServer result" where
  "NewProxy_config ext cfg =
     bind (if length (Config.Name cfg) = 0 then log_Fatal ''You must set instance name''
           else ret ()) (\<lambda>_.
     bind (emit PolicyStart) (\<lambda>_.
     bind (lift (policy_Start ext cfg)) (\<lambda>_.
     (let proxy = \<lparr>config = cfg, blockTemplate = None, upstream = 0, upstreams = [],
                   diff = [], hashrateExpiration = 0, failsCount = 0, sessions = None,
                   nonceSize = 0, workDiff = Map.empty, minDiffFloat = 0,
                   maxDiffFloat = 0\<rparr>
      in
     bind (lift (GetTargetHex ext (Proxy_cfg.Difficulty (Proxy cfg)))) (\<lambda>target.
     (let proxy = proxy\<lparr>diff := target\<rparr>;
          proxy = proxy\<lparr>workDiff := Map.empty\<rparr>;
          proxy = proxy\<lparr>minDiffFloat := MinDiffFloat (Stratum (Proxy cfg))\<rparr>
      in
     bind (if minDiffFloat proxy < float64_0_1
              \<and> Protocol (Stratum (Proxy cfg)) = ''EthereumStratum''
           then log_Fatal ''For EthereumStratum protocol type, the minimum float difficulty must be set to at least 0.1''
           else ret ()) (\<lambda>_.
     (let proxy = proxy\<lparr>maxDiffFloat := MaxDiffFloat (Stratum (Proxy cfg))\<rparr> in
     bind (emit (Log ''Set minimum float difficulty to %v'')) (\<lambda>_.
     bind (emit (Log ''Set maximum float difficulty to %v'')) (\<lambda>_.
     (let nonceSize = NonceSize (Stratum (Proxy cfg));
          nonceSize = (if nonceSize < 2 then 2 else nonceSize);
          proxy = proxy\<lparr>nonceSize := nonceSize\<rparr>
      in
     bind (emit (Log ''Set nonce size to %v'')) (\<lambda>_.
     ret proxy))))))))))))"

text \<open>Lines 94 to 99: one client per configured upstream, in order.\<close>

fun new_upstreams :: "externals \<Rightarrow> Upstream_cfg list \<Rightarrow> RPCClient list result" where
  "new_upstreams ext [] = ret []"
| "new_upstreams ext (v # vs) =
     bind (lift (NewRPCClient ext (Upstream_cfg.Name v) (Upstream_cfg.Url v) (Timeout v))) (\<lambda>c.
     bind (emit (Log ''Upstream: %s => %s'')) (\<lambda>_.
     bind (new_upstreams ext vs) (\<lambda>cs.
     ret (c # cs))))"

definition NewProxy_upstreams :: "externals \<Rightarrow> Config \<Rightarrow> ProxyServer \<Rightarrow> ProxyServer result" where
  "NewProxy_upstreams ext cfg proxy =
     bind (new_upstreams ext (Upstream cfg)) (\<lambda>cs.
     (let proxy = proxy\<lparr>upstreams := cs\<rparr> in
     bind (lift (rpc proxy)) (\<lambda>_.
     bind (lift (rpc proxy)) (\<lambda>_.
     bind (emit (Log ''Default upstream: %s => %s'')) (\<lambda>_.
     ret proxy)))))"

text \<open>Lines 101 to 114: the stratum endpoint.\<close>

definition NewProxy_stratum :: "Config \<Rightarrow> ProxyServer \<Rightarrow> ProxyServer result" where
  "NewProxy_stratum cfg proxy =
     (if Enabled (Stratum (Proxy cfg)) then
        (let proxy = proxy\<lparr>sessions := Some {}\<rparr> in
         if Protocol (Stratum (Proxy cfg)) = ''Stratum-Proxy'' then
           bind (emit (Go ListenSP)) (\<lambda>_. ret proxy)
         else if Protocol (Stratum (Proxy cfg)) = ''EthereumStratum'' then
           bind (emit (Go ListenES)) (\<lambda>_. ret proxy)
         else
           log_Fatal ''Please choose either Stratum-Proxy or EthereumStratum protocol for your stratum endpoint.'')
      else log_Fatal ''Stratum endpoint is not configured properly.'')"

text \<open>Lines 116 to 190: the first template, the four timers, the four loops.\<close>

definition NewProxy_timers :: "externals \<Rightarrow> Config \<Rightarrow> ProxyServer \<Rightarrow> ProxyServer result" where
  "NewProxy_timers ext cfg proxy =
     bind (emit Call_fetchBlockTemplate) (\<lambda>_.
     (let proxy = fetchBlockTemplate ext proxy in
     bind (lift (MustParseDuration ext (HashrateExpiration (Proxy cfg)))) (\<lambda>d.
     (let proxy = proxy\<lparr>hashrateExpiration := d\<rparr> in
     bind (lift (MustParseDuration ext (BlockRefreshInterval (Proxy cfg)))) (\<lambda>refreshIntv.
     bind (emit (NewTimer refreshTimer refreshIntv)) (\<lambda>_.
     bind (emit (Log ''Set block refresh every %v'')) (\<lambda>_.
     bind (lift (MustParseDuration ext (CleanInterval (Proxy cfg)))) (\<lambda>cleanIntv.
     bind (emit (NewTimer cleanTimer cleanIntv)) (\<lambda>_.
     bind (lift (MustParseDuration ext (UpstreamCheckInterval cfg))) (\<lambda>checkIntv.
     bind (emit (NewTimer checkTimer checkIntv)) (\<lambda>_.
     bind (lift (MustParseDuration ext (StateUpdateInterval (Proxy cfg)))) (\<lambda>stateUpdateIntv.
     bind (emit (NewTimer stateUpdateTimer stateUpdateIntv)) (\<lambda>_.
     bind (emit (Go (cleanLoop refreshIntv))) (\<lambda>_.
     bind (emit (Go (refreshLoop refreshIntv))) (\<lambda>_.
     bind (emit (Go (checkLoop checkIntv))) (\<lambda>_.
     bind (emit (Go (stateUpdateLoop stateUpdateIntv))) (\<lambda>_.
     ret proxy)))))))))))))))))"

definition NewProxy :: "externals \<Rightarrow> Config \<Rightarrow> ProxyServer result" where
  "NewProxy ext cfg =
     bind (NewProxy_config ext cfg) (\<lambda>proxy.
     bind (NewProxy_upstreams ext cfg proxy) (\<lambda>proxy.
     bind (NewProxy_stratum cfg proxy) (\<lambda>proxy.
     NewProxy_timers ext cfg proxy)))"

subsection \<open>Timers\<close>

text \<open>
  A timer of the Go library, by the time at which its channel delivers: \<open>Some t\<close> for a
  timer set to fire at \<open>t\<close>, \<open>None\<close> for one that has fired and was not reset.
  \<^verbatim>\<open>NewTimer(d)\<close> and \<^verbatim>\<open>Reset(d)\<close>, called at time \<open>now\<close>, set it to \<open>now + d\<close>;
  \<open>timer_deadline T now tr dl\<close> is the timer \<open>T\<close> after the effects \<open>tr\<close>, which happen
  at \<open>now\<close>, when it was \<open>dl\<close> before.
\<close>

fun timer_deadline :: "timer_id \<Rightarrow> Time \<Rightarrow> effect list \<Rightarrow> Time option \<Rightarrow> Time option" where
  "timer_deadline T now [] dl = dl"
| "timer_deadline T now (NewTimer T' d # tr) dl =
     timer_deadline T now tr (if T' = T then Some (now + d) else dl)"
| "timer_deadline T now (TimerReset T' d # tr) dl =
     timer_deadline T now tr (if T' = T then Some (now + d) else dl)"
| "timer_deadline T now (e # tr) dl = timer_deadline T now tr dl"

text \<open>
  The clean timer's goroutine, as the times at which its sweeps start. The goroutine
  waits from \<open>now\<close> on a timer set to \<open>dl\<close>; the receive returns when the timer fires,
  or at once if that time has passed. Each turn is given by the order \<open>ks\<close> in which
  the sweep visits the keys and the time \<open>d\<close> the body takes up to its call of
  \<^verbatim>\<open>Reset\<close>; the timer after the turn is what the turn's effects make of it. A panic
  ends the process.
\<close>

fun cleanLoop_fires ::
  "Duration \<Rightarrow> (string list \<times> Duration) list \<Rightarrow> Time \<Rightarrow> Time option \<Rightarrow> store \<times> ProxyServer
     \<Rightarrow> Time list" where
  "cleanLoop_fires refreshIntv [] now dl hs = []"
| "cleanLoop_fires refreshIntv ((ks, d) # turns) now dl hs =
     (case dl of
        None \<Rightarrow> []
      | Some t \<Rightarrow>
          (let fire = max now t; finish = fire + d in
           case cleanTick refreshIntv ks hs of
             (tr, Inl e) \<Rightarrow> [fire]
           | (tr, Inr hs') \<Rightarrow>
               fire # cleanLoop_fires refreshIntv turns finish
                        (timer_deadline cleanTimer finish tr None) hs'))"

text \<open>
  The effects of the steps of \<^verbatim>\<open>NewProxy\<close> that follow its configuration checks: a
  goroutine started, the first template fetched, a timer created.
\<close>

fun started :: "effect \<Rightarrow> bool" where
  "started (Go g) = True"
| "started Call_fetchBlockTemplate = True"
| "started (NewTimer T d) = True"
| "started e = False"

subsection \<open>The states of a running server\<close>

text \<open>
  The server that \<^verbatim>\<open>NewProxy\<close> returns, and every state the operations of proxy.go
  lead to from it, in any order: turns of the four timer loops and requests to the
  notification endpoint. Each access to \<^verbatim>\<open>upstream\<close> is atomic, so what \<^verbatim>\<open>rpc\<close>
  reads is the index of one of these states.
\<close>

inductive reachable :: "externals \<Rightarrow> Config \<Rightarrow> ProxyServer \<Rightarrow> bool" for ext cfg where
  constructed: "NewProxy ext cfg = (tr, Inr s) \<Longrightarrow> reachable ext cfg s"
| checked: "reachable ext cfg s \<Longrightarrow> checkTick Check checkIntv s = (tr, Inr s')
    \<Longrightarrow> reachable ext cfg s'"
| refreshed: "reachable ext cfg s \<Longrightarrow> refreshTick ext refreshIntv s = (tr, Inr s')
    \<Longrightarrow> reachable ext cfg s'"
| cleaned: "reachable ext cfg s \<Longrightarrow> cleanTick refreshIntv ks (h, s) = (tr, Inr (h', s'))
    \<Longrightarrow> reachable ext cfg s'"
| state_updated: "reachable ext cfg s \<Longrightarrow> stateUpdateTick err stateUpdateIntv s = (tr, Inr s')
    \<Longrightarrow> reachable ext cfg s'"
| notified: "reachable ext cfg s \<Longrightarrow> Start_handler ext s r = (tr, Inr s')
    \<Longrightarrow> reachable ext cfg s'"

subsection \<open>A concrete server\<close>

text \<open>
  A configuration with three upstreams A, B, C (in priority order), the health check
  enabled with \<open>MaxFails = 2\<close>, and the server state built from it.
\<close>

definition example_cfg :: Config where
  "example_cfg =
     \<lparr>Config.Name = ''pool-1'',
      Proxy =
        \<lparr>Proxy_cfg.Difficulty = 2000000000,
         Stratum =
           \<lparr>Enabled = True, Protocol = ''EthereumStratum'',
            MinDiffFloat = 1 / 2, MaxDiffFloat = 8, NonceSize = 2\<rparr>,
         HashrateExpiration = ''3h'',
         BlockRefreshInterval = ''120ms'',
         CleanInterval = ''10m'',
         StateUpdateInterval = ''3s'',
         HealthCheck = True,
         MaxFails = 2,
         Listen = ''0.0.0.0:8888''\<rparr>,
      Upstream =
        [\<lparr>Upstream_cfg.Name = ''A'', Url = ''http://a:8545'', Timeout = ''10s''\<rparr>,
         \<lparr>Upstream_cfg.Name = ''B'', Url = ''http://b:8545'', Timeout = ''10s''\<rparr>,
         \<lparr>Upstream_cfg.Name = ''C'', Url = ''http://c:8545'', Timeout = ''10s''\<rparr>],
      UpstreamCheckInterval = ''5s''\<rparr>"

definition example_proxy :: ProxyServer where
  "example_proxy =
     \<lparr>config = example_cfg,
      blockTemplate = None,
      upstream = 0,
      upstreams =
        [\<lparr>RPCClient.Name = ''A'', Url = ''http://a:8545''\<rparr>,
         \<lparr>RPCClient.Name = ''B'', Url = ''http://b:8545''\<rparr>,
         \<lparr>RPCClient.Name = ''C'', Url = ''http://c:8545''\<rparr>],
      diff = ''0x225c17d04dad2965cc5a02a23e254c0c3f75d9178046aeb27ce1ca574'',
      hashrateExpiration = 10800000000000,
      failsCount = 0,
      sessions = Some {},
      nonceSize = 2,
      workDiff = Map.empty,
      minDiffFloat = 1 / 2,
      maxDiffFloat = 8\<rparr>"

text \<open>
  Collaborators for that server: every call returns, a duration is parsed when it is one
  of those the configuration uses, and a fetch stores \<open>example_template\<close>.
\<close>

definition example_template :: BlockTemplate where
  "example_template = \<lparr>Height = 1200345, BlockTemplate.Difficulty = 8800000000\<rparr>"

definition example_parse :: "string \<Rightarrow> abort + Duration" where
  "example_parse s =
     (if s = ''3h'' then Inr 10800000000000
      else if s = ''10m'' then Inr 600000000000
      else if s = ''10s'' then Inr 10000000000
      else if s = ''5s'' then Inr 5000000000
      else if s = ''3s'' then Inr 3000000000
      else if s = ''120ms'' then Inr 120000000
      else Inl (Panic ''util: Can't parse duration''))"

definition example_ext :: externals where
  "example_ext =
     \<lparr>policy_Start = (\<lambda>cfg. Inr ()),
      GetTargetHex = (\<lambda>d. Inr ''0x225c17d04dad2965cc5a02a23e254c0c3f75d9178046aeb27ce1ca574''),
      NewRPCClient = (\<lambda>name url timeout.
        case example_parse timeout of
          Inl e \<Rightarrow> Inl e
        | Inr d \<Rightarrow> Inr \<lparr>RPCClient.Name = name, Url = url\<rparr>),
      MustParseDuration = example_parse,
      fetchBlockTemplate = (\<lambda>s. s\<lparr>blockTemplate := Some example_template\<rparr>)\<rparr>"

text \<open>
  A store and a map of three logins: alice is marked for deletion within her grace
  period, bob is marked and past it, carol is not marked. \<open>example_order\<close> is one
  order in which a sweep may produce the keys.
\<close>

definition example_store :: store where
  "example_store a =
     (if a = 0 then \<lparr>WorkDiff.Difficulty = 4000, PassDel = True, IsDel = True\<rparr>
      else if a = 1 then \<lparr>WorkDiff.Difficulty = 5000, PassDel = False, IsDel = True\<rparr>
      else \<lparr>WorkDiff.Difficulty = 6000, PassDel = False, IsDel = False\<rparr>)"

definition example_workDiff :: "string \<rightharpoonup> ref" where
  "example_workDiff = [''alice'' \<mapsto> Ref 0, ''bob'' \<mapsto> Ref 1, ''carol'' \<mapsto> Ref 2]"

definition example_order :: "string list" where
  "example_order = [''bob'', ''carol'', ''alice'']"

text \<open>
  Three ways to spoil that configuration: the stratum endpoint disabled, a protocol that
  is neither of the two, a minimum difficulty of one twentieth with EthereumStratum.
\<close>

definition example_disabled :: Proxy_cfg where
  "example_disabled =
     (Proxy example_cfg)\<lparr>Stratum := (Stratum (Proxy example_cfg))\<lparr>Enabled := False\<rparr>\<rparr>"

definition example_protocol :: Proxy_cfg where
  "example_protocol =
     (Proxy example_cfg)\<lparr>Stratum := (Stratum (Proxy example_cfg))\<lparr>Protocol := ''stratum''\<rparr>\<rparr>"

definition example_min_diff :: Proxy_cfg where
  "example_min_diff =
     (Proxy example_cfg)\<lparr>Stratum := (Stratum (Proxy example_cfg))\<lparr>MinDiffFloat := 1 / 20\<rparr>\<rparr>"

text \<open>
  A map in which two logins share one object, marked within its grace period, and a map
  with a nil pointer.
\<close>

definition shared_workDiff :: "string \<rightharpoonup> ref" where
  "shared_workDiff = [''alice'' \<mapsto> Ref 0, ''alice.rig2'' \<mapsto> Ref 0]"

definition nil_workDiff :: "string \<rightharpoonup> ref" where
  "nil_workDiff = [''ghost'' \<mapsto> Nil_ref]"

text \<open>Three requests to the notification endpoint.\<close>

definition example_get :: Request where
  "example_get = \<lparr>Method = ''GET'', RemoteAddr = ''10.0.0.7:51234''\<rparr>"

definition example_post :: Request where
  "example_post = \<lparr>Method = ''POST'', RemoteAddr = ''10.0.0.7:51234''\<rparr>"

definition example_head :: Request where
  "example_head = \<lparr>Method = ''HEAD'', RemoteAddr = ''10.0.0.7:51234''\<rparr>"

text \<open>Three turns of the clean loop, each taking a millisecond.\<close>

definition example_turns :: "(string list \<times> Duration) list" where
  "example_turns =
     [([''bob'', ''carol'', ''alice''], 1000000),
      ([''alice'', ''carol''], 1000000),
      ([''carol''], 1000000)]"

text \<open>Two outcomes of a sweep: no upstream answers; A and C answer, B does not.\<close>

definition none_healthy :: "nat \<Rightarrow> bool" where
  "none_healthy i = False"

definition A_and_C_healthy :: "nat \<Rightarrow> bool" where
  "A_and_C_healthy i = (i = 0 \<or> i = 2)"

section \<open>Properties\<close>

subsection \<open>The sick counter\<close>

text \<open>
  C4. \<open>isSick\<close> holds exactly when the health check is enabled and the failure counter
  is at least \<open>MaxFails\<close> (both signed 64 bit numbers). \<open>markSick\<close> adds one to the
  counter (in 64 bit arithmetic; below the largest \<^verbatim>\<open>int64\<close> that is one more as a
  number) and \<open>markOk\<close> sets it to zero; neither changes the configuration. Starting
  from zero with the health check enabled and \<open>MaxFails = 2\<close>, two failures make the
  server sick and one success after them makes it well again.
\<close>

theorem isSick_markSick_markOk:
  "isSick s = (HealthCheck (Proxy (config s))
               \<and> sint (MaxFails (Proxy (config s))) \<le> sint (failsCount s))
   \<and> failsCount (markSick s) = failsCount s + 1
   \<and> (sint (failsCount s) < 2 ^ 63 - 1
        \<longrightarrow> sint (failsCount (markSick s)) = sint (failsCount s) + 1)
   \<and> failsCount (markOk s) = 0
   \<and> config (markSick s) = config s \<and> config (markOk s) = config s
   \<and> (HealthCheck (Proxy (config s)) \<and> MaxFails (Proxy (config s)) = 2 \<and> failsCount s = 0
        \<longrightarrow> \<not> isSick s \<and> \<not> isSick (markSick s)
            \<and> isSick (markSick (markSick s))
            \<and> \<not> isSick (markOk (markSick (markSick s))))"
proof -
  have wrap: "sint (failsCount s + 1) = sint (failsCount s) + 1"
    if "sint (failsCount s) < 2 ^ 63 - 1"
  proof -
    have lo: "- (2 ^ 63) \<le> sint (failsCount s)"
      using sint_ge [of "failsCount s"] by simp
    have "sint (failsCount s + 1) = signed_take_bit 63 (sint (failsCount s) + 1)"
      by (simp add: sint_word_ariths)
    also have "\<dots> = sint (failsCount s) + 1"
      using lo that by (intro signed_take_bit_int_eq_self) simp_all
    finally show ?thesis .
  qed
  show ?thesis
    by (simp add: isSick_def markSick_def markOk_def wrap)
qed

theorem isSick_markSick_markOk_witness:
  "\<not> isSick example_proxy
   \<and> \<not> isSick (markSick example_proxy)
   \<and> isSick (markSick (markSick example_proxy))
   \<and> \<not> isSick (markOk (markSick (markSick example_proxy)))
   \<and> sint (failsCount (markSick example_proxy)) = 1"
  using isSick_markSick_markOk [of example_proxy]
  by (simp add: example_proxy_def example_cfg_def)

subsection \<open>The health-check sweep\<close>

text \<open>The loop of \<^verbatim>\<open>checkUpstreams\<close>: once \<^verbatim>\<open>backup\<close> is set nothing changes.\<close>

lemma check_loop_backup: "fold (check_step Check) js (c, True) = (c, True)"
  by (induction js) (simp_all add: check_step_def)

lemma check_loop_none:
  "\<forall>j\<in>set js. \<not> Check j \<Longrightarrow> fold (check_step Check) js cb = cb"
  by (induction js arbitrary: cb) (auto simp: check_step_def split: prod.splits)

lemma check_loop_none_upt:
  assumes "\<forall>j<n. \<not> Check j"
  shows "fold (check_step Check) [0..<n] (0, False) = (0, False)"
  using assms by (intro check_loop_none) simp

lemma check_loop_first:
  assumes "i < n" and "Check i" and "\<forall>j<i. \<not> Check j"
  shows "fold (check_step Check) [0..<n] (0, False) = (word_of_nat i, True)"
proof -
  have parts: "[0..<n] = [0..<i] @ i # [Suc i..<n]"
    using assms(1)
    by (metis le_add1 less_imp_add_positive upt_add_eq_append upt_conv_Cons add_0)
  have "fold (check_step Check) [0..<i] (0, False) = (0, False)"
    using assms(3) by (rule check_loop_none_upt)
  then show ?thesis
    using assms(2) by (simp add: parts check_step_def check_loop_backup)
qed

text \<open>Below \<open>2 ^ 31\<close> the conversion \<^verbatim>\<open>int32(i)\<close> is exact.\<close>

lemma index_word_of_nat:
  assumes "i < length xs" and "length xs \<le> 2 ^ 31"
  shows "index xs (word_of_nat i) = Inr (xs ! i)"
    and "sint (word_of_nat i :: int32) = int i"
proof -
  have small: "i < 2 ^ 31"
    using assms by simp
  show val: "sint (word_of_nat i :: int32) = int i"
  proof -
    have "sint (word_of_nat i :: int32) = signed_take_bit 31 (int i)"
      by (simp add: signed_of_nat)
    also have "\<dots> = int i"
      using small by (intro signed_take_bit_int_eq_self) simp_all
    finally show ?thesis .
  qed
  show "index xs (word_of_nat i) = Inr (xs ! i)"
    using assms(1) by (simp add: index_def val)
qed

lemma index_zero:
  assumes "xs \<noteq> []"
  shows "index xs 0 = Inr (xs ! 0)"
  using assms by (simp add: index_def)

text \<open>What a sweep returns once the loop's candidate is known to be an index.\<close>

lemma checkUpstreams_candidate:
  assumes "fold (check_step Check) [0..<length (upstreams s)] (0, False) = (c, b)"
    and "index (upstreams s) c = Inr x"
  shows "checkUpstreams Check s =
           (if upstream s \<noteq> c then [Log ''Switching to %v upstream''] else [],
            Inr (s\<lparr>upstream := c\<rparr>))"
proof (cases "upstream s = c")
  case True
  then have "s\<lparr>upstream := c\<rparr> = s"
    by auto
  with True assms show ?thesis
    by (simp add: checkUpstreams_def ret_def)
next
  case False
  with assms show ?thesis
    by (simp add: checkUpstreams_def ret_def bind_def lift_def emit_def)
qed

text \<open>
  C1, as amended. When no upstream reports healthy the candidate stays at its initial
  value 0, so with a non-empty upstream list the sweep leaves the server with active
  index 0 and changes nothing else: the index is the one before the sweep exactly when
  that one was 0.
\<close>

theorem checkUpstreams_none_healthy:
  assumes "\<forall>i<length (upstreams s). \<not> Check i" and "upstreams s \<noteq> []"
  shows "\<exists>tr s'. checkUpstreams Check s = (tr, Inr s')
           \<and> upstream s' = 0
           \<and> s' = s\<lparr>upstream := 0\<rparr>
           \<and> (upstream s' = upstream s \<longleftrightarrow> upstream s = 0)"
proof -
  have loop: "fold (check_step Check) [0..<length (upstreams s)] (0, False) = (0, False)"
    using assms(1) by (rule check_loop_none_upt)
  have res: "checkUpstreams Check s =
           (if upstream s \<noteq> 0 then [Log ''Switching to %v upstream''] else [],
            Inr (s\<lparr>upstream := 0\<rparr>))"
    by (rule checkUpstreams_candidate [OF loop index_zero [OF assms(2)]])
  show ?thesis
    unfolding res by auto
qed

theorem checkUpstreams_none_healthy_witness:
  "\<not> none_healthy 0 \<and> \<not> none_healthy 1 \<and> \<not> none_healthy 2
   \<and> length (upstreams (example_proxy\<lparr>upstream := 2\<rparr>)) = 3
   \<and> (\<exists>tr. checkUpstreams none_healthy (example_proxy\<lparr>upstream := 2\<rparr>)
            = (tr, Inr (example_proxy\<lparr>upstream := 0\<rparr>)))"
proof -
  have none: "\<forall>i<length (upstreams (example_proxy\<lparr>upstream := 2\<rparr>)). \<not> none_healthy i"
    by (simp add: none_healthy_def)
  have some: "upstreams (example_proxy\<lparr>upstream := 2\<rparr>) \<noteq> []"
    by (simp add: example_proxy_def)
  show ?thesis
    using checkUpstreams_none_healthy [OF none some] none
    by (auto simp: example_proxy_def)
qed

text \<open>
  The claim as the specification states it fails: with the active index at 1 (upstream
  B) and no upstream healthy, the sweep switches to index 0.
\<close>

theorem checkUpstreams_none_healthy_counterexample:
  "upstream (example_proxy\<lparr>upstream := 1\<rparr>) = 1
   \<and> length (upstreams (example_proxy\<lparr>upstream := 1\<rparr>)) = 3
   \<and> \<not> none_healthy 0 \<and> \<not> none_healthy 1 \<and> \<not> none_healthy 2
   \<and> checkUpstreams none_healthy (example_proxy\<lparr>upstream := 1\<rparr>)
       = ([Log ''Switching to %v upstream''], Inr (example_proxy\<lparr>upstream := 0\<rparr>))
   \<and> upstream (example_proxy\<lparr>upstream := 0\<rparr>) \<noteq> upstream (example_proxy\<lparr>upstream := 1\<rparr>)"
  by (simp add: checkUpstreams_def example_proxy_def none_healthy_def check_step_def
      bind_def lift_def emit_def ret_def index_def upt_rec)

text \<open>
  C2. When upstream \<open>i\<close> reports healthy and no upstream before it does, the sweep
  returns with \<open>i\<close> as the active index, changes nothing else, and \<open>rpc\<close> then yields
  upstream \<open>i\<close>. The list has at most \<open>2 ^ 31\<close> entries, the range in which
  \<^verbatim>\<open>int32(i)\<close> is \<open>i\<close>.
\<close>

theorem checkUpstreams_first_healthy:
  assumes "i < length (upstreams s)" and "Check i" and "\<forall>j<i. \<not> Check j"
    and "length (upstreams s) \<le> 2 ^ 31"
  shows "\<exists>tr s'. checkUpstreams Check s = (tr, Inr s')
           \<and> sint (upstream s') = int i
           \<and> s' = s\<lparr>upstream := word_of_nat i\<rparr>
           \<and> rpc s' = Inr (upstreams s ! i)"
proof -
  have loop: "fold (check_step Check) [0..<length (upstreams s)] (0, False)
                = (word_of_nat i, True)"
    using assms(1-3) by (rule check_loop_first)
  have idx: "index (upstreams s) (word_of_nat i) = Inr (upstreams s ! i)"
    using assms(1,4) by (rule index_word_of_nat(1))
  have val: "sint (word_of_nat i :: int32) = int i"
    using assms(1,4) by (rule index_word_of_nat(2))
  have res: "checkUpstreams Check s =
           (if upstream s \<noteq> word_of_nat i then [Log ''Switching to %v upstream''] else [],
            Inr (s\<lparr>upstream := word_of_nat i\<rparr>))"
    by (rule checkUpstreams_candidate [OF loop idx])
  show ?thesis
    unfolding res using idx val by (simp add: rpc_def)
qed

text \<open>
  The scenario of the specification: upstreams A, B, C with A and C healthy and B not;
  the sweep, started with C active, selects A.
\<close>

theorem checkUpstreams_first_healthy_witness:
  "A_and_C_healthy 0 \<and> \<not> A_and_C_healthy 1 \<and> A_and_C_healthy 2
   \<and> (\<exists>tr. checkUpstreams A_and_C_healthy (example_proxy\<lparr>upstream := 2\<rparr>)
            = (tr, Inr (example_proxy\<lparr>upstream := 0\<rparr>)))
   \<and> rpc (example_proxy\<lparr>upstream := 0\<rparr>)
       = Inr \<lparr>RPCClient.Name = ''A'', Url = ''http://a:8545''\<rparr>"
proof -
  have len: "0 < length (upstreams (example_proxy\<lparr>upstream := 2\<rparr>))"
    and bound: "length (upstreams (example_proxy\<lparr>upstream := 2\<rparr>)) \<le> 2 ^ 31"
    by (simp_all add: example_proxy_def)
  have A: "A_and_C_healthy 0" and first: "\<forall>j<0. \<not> A_and_C_healthy j"
    and B: "\<not> A_and_C_healthy 1" and C: "A_and_C_healthy 2"
    by (simp_all add: A_and_C_healthy_def)
  show ?thesis
    using checkUpstreams_first_healthy [OF len A first bound] A B C
    by (auto simp: example_proxy_def)
qed

subsection \<open>The cleanup sweep\<close>

text \<open>What one turn of the loop can do: nothing, delete its key, or clear the flag.\<close>

lemma clean_entry_cases:
  assumes "clean_entry k (h, m) = Inr (h', m')"
  shows "(h' = h \<and> m' = m \<and> (\<forall>a. m k = Some (Ref a) \<longrightarrow> \<not> IsDel (h a)))
       \<or> (\<exists>a. m k = Some (Ref a) \<and> IsDel (h a) \<and> \<not> PassDel (h a)
             \<and> h' = h \<and> m' = m(k := None))
       \<or> (\<exists>a. m k = Some (Ref a) \<and> IsDel (h a) \<and> PassDel (h a)
             \<and> h' = h(a := (h a)\<lparr>PassDel := False\<rparr>) \<and> m' = m)"
  using assms
  by (auto simp: clean_entry_def Let_def split: option.splits ref.splits if_splits)

lemma clean_entry_total:
  assumes "m k \<noteq> Some Nil_ref"
  shows "\<exists>h' m'. clean_entry k (h, m) = Inr (h', m')"
  using assms
  by (auto simp: clean_entry_def Let_def split: option.splits ref.splits)

lemma clean_entry_map:
  assumes "clean_entry k (h, m) = Inr (h', m')"
  shows "m' = m \<or> m' = m(k := None)"
  using clean_entry_cases [OF assms] by auto

lemma clean_entry_store:
  assumes "clean_entry k (h, m) = Inr (h', m')"
  shows "h' a = h a \<or> (m k = Some (Ref a) \<and> IsDel (h a) \<and> PassDel (h a) \<and> h' a = (h a)\<lparr>PassDel := False\<rparr>)"
  using clean_entry_cases [OF assms] by (auto split: if_splits)

lemma clean_range_total:
  assumes "\<forall>k. m k \<noteq> Some Nil_ref"
  shows "\<exists>h' m'. clean_range ks (h, m) = Inr (h', m')"
  using assms
proof (induction ks arbitrary: h m)
  case Nil
  then show ?case by simp
next
  case (Cons k ks)
  obtain h1 m1 where step: "clean_entry k (h, m) = Inr (h1, m1)"
    using clean_entry_total [of m k h] Cons.prems by blast
  have "\<forall>k. m1 k \<noteq> Some Nil_ref"
    using clean_entry_map [OF step] Cons.prems by (auto split: if_splits)
  then show ?case
    using Cons.IH [of m1 h1] step by simp
qed

lemma clean_range_unmarked:
  assumes "clean_range ks (h, m) = Inr (h', m')"
    and "m k = Some (Ref a)" and "\<not> IsDel (h a)"
  shows "m' k = Some (Ref a) \<and> h' a = h a"
  using assms
proof (induction ks arbitrary: h m)
  case Nil
  then show ?case by simp
next
  case (Cons k' ks)
  obtain h1 m1 where step: "clean_entry k' (h, m) = Inr (h1, m1)"
    and rest: "clean_range ks (h1, m1) = Inr (h', m')"
    using Cons.prems(1) by (auto split: sum.splits)
  have keep: "m1 k = Some (Ref a) \<and> h1 a = h a"
    using clean_entry_cases [OF step] Cons.prems(2,3) by auto
  then show ?case
    using Cons.IH [OF rest] Cons.prems(3) by simp
qed

lemma clean_range_Difficulty:
  assumes "clean_range ks (h, m) = Inr (h', m')"
  shows "WorkDiff.Difficulty (h' a) = WorkDiff.Difficulty (h a) \<and> IsDel (h' a) = IsDel (h a)"
  using assms
proof (induction ks arbitrary: h m)
  case Nil
  then show ?case by simp
next
  case (Cons k' ks)
  obtain h1 m1 where step: "clean_entry k' (h, m) = Inr (h1, m1)"
    and rest: "clean_range ks (h1, m1) = Inr (h', m')"
    using Cons.prems(1) by (auto split: sum.splits)
  have "WorkDiff.Difficulty (h1 a) = WorkDiff.Difficulty (h a) \<and> IsDel (h1 a) = IsDel (h a)"
    using clean_entry_store [OF step, of a] by auto
  then show ?case
    using Cons.IH [OF rest] by simp
qed

lemma clean_range_others:
  assumes "clean_range ks (h, m) = Inr (h', m')"
    and "k \<notin> set ks" and "\<forall>k'\<in>set ks. m k' \<noteq> Some (Ref a)"
  shows "m' k = m k \<and> h' a = h a"
  using assms
proof (induction ks arbitrary: h m)
  case Nil
  then show ?case by simp
next
  case (Cons k' ks)
  obtain h1 m1 where step: "clean_entry k' (h, m) = Inr (h1, m1)"
    and rest: "clean_range ks (h1, m1) = Inr (h', m')"
    using Cons.prems(1) by (auto split: sum.splits)
  have m1: "m1 = m \<or> m1 = m(k' := None)"
    by (rule clean_entry_map [OF step])
  have k: "m1 k = m k"
    using m1 Cons.prems(2) by auto
  have a: "h1 a = h a"
    using clean_entry_store [OF step, of a] Cons.prems(3) by auto
  have others: "\<forall>k''\<in>set ks. m1 k'' \<noteq> Some (Ref a)"
    using m1 Cons.prems(3) by (auto split: if_splits)
  show ?case
    using Cons.IH [OF rest _ others] Cons.prems(2) k a by simp
qed

lemma clean_range_marked:
  assumes "clean_range ks (h, m) = Inr (h', m')"
    and "distinct ks" and "k \<in> set ks"
    and "m k = Some (Ref a)" and "\<forall>k'. k' \<noteq> k \<longrightarrow> m k' \<noteq> Some (Ref a)"
    and "IsDel (h a)"
  shows "m' k = (if PassDel (h a) then Some (Ref a) else None)
       \<and> h' a = (h a)\<lparr>PassDel := False\<rparr>"
  using assms
proof (induction ks arbitrary: h m)
  case Nil
  then show ?case by simp
next
  case (Cons k' ks)
  obtain h1 m1 where step: "clean_entry k' (h, m) = Inr (h1, m1)"
    and rest: "clean_range ks (h1, m1) = Inr (h', m')"
    using Cons.prems(1) by (auto split: sum.splits)
  have m1: "m1 = m \<or> m1 = m(k' := None)"
    by (rule clean_entry_map [OF step])
  show ?case
  proof (cases "k' = k")
    case True
    have notin: "k \<notin> set ks"
      using Cons.prems(2) True by simp
    have others: "\<forall>k''\<in>set ks. m1 k'' \<noteq> Some (Ref a)"
      using m1 Cons.prems(5) notin by (auto split: if_splits)
    have after: "m' k = m1 k \<and> h' a = h1 a"
      by (rule clean_range_others [OF rest notin others])
    have "m1 k = (if PassDel (h a) then Some (Ref a) else None)
        \<and> h1 a = (h a)\<lparr>PassDel := False\<rparr>"
      using clean_entry_cases [OF step] True Cons.prems(4,6) by auto
    with after show ?thesis by simp
  next
    case False
    have k: "m1 k = Some (Ref a)"
      using m1 False Cons.prems(4) by auto
    have a: "h1 a = h a"
      using clean_entry_store [OF step, of a] Cons.prems(5) False by auto
    have others: "\<forall>k''. k'' \<noteq> k \<longrightarrow> m1 k'' \<noteq> Some (Ref a)"
      using m1 Cons.prems(5) by (auto split: if_splits)
    have "m' k = (if PassDel (h1 a) then Some (Ref a) else None)
        \<and> h' a = (h1 a)\<lparr>PassDel := False\<rparr>"
      using Cons.prems(2,3,6) False a by (intro Cons.IH [OF rest _ _ k others]) simp_all
    then show ?thesis
      using a by simp
  qed
qed

lemma clean_range_shrinks:
  assumes "clean_range ks (h, m) = Inr (h', m')"
  shows "m' k = m k \<or> m' k = None"
  using assms
proof (induction ks arbitrary: h m)
  case Nil
  then show ?case by simp
next
  case (Cons k' ks)
  obtain h1 m1 where step: "clean_entry k' (h, m) = Inr (h1, m1)"
    and rest: "clean_range ks (h1, m1) = Inr (h', m')"
    using Cons.prems(1) by (auto split: sum.splits)
  have "m1 k = m k \<or> m1 k = None"
    using clean_entry_map [OF step] by (auto split: if_splits)
  then show ?case
    using Cons.IH [OF rest] by auto
qed

lemma cleanTick_eq:
  assumes "clean_range ks (h, workDiff s) = Inr (h', m')"
  shows "cleanTick r ks (h, s) = ([TimerReset cleanTimer r], Inr (h', s\<lparr>workDiff := m'\<rparr>))"
  using assms by (simp add: cleanTick_def bind_def lift_def emit_def ret_def)

text \<open>
  C9. In a map without nil pointers the sweep returns, in whatever order it visits the
  keys. Every entry whose object has \<open>IsDel = False\<close> before the sweep is still in the
  map afterwards, pointing to the same object, and that object is unchanged in all its
  fields. No object's \<open>Difficulty\<close> changes, marked or not, and nothing of the server
  but the map changes.
\<close>

theorem cleanTick_frame:
  assumes "\<forall>k. workDiff s k \<noteq> Some Nil_ref"
  shows "\<exists>h' s'. cleanTick r ks (h, s) = ([TimerReset cleanTimer r], Inr (h', s'))
           \<and> (\<forall>k a. workDiff s k = Some (Ref a) \<and> \<not> IsDel (h a)
                 \<longrightarrow> workDiff s' k = Some (Ref a) \<and> h' a = h a)
           \<and> (\<forall>a. WorkDiff.Difficulty (h' a) = WorkDiff.Difficulty (h a))
           \<and> s' = s\<lparr>workDiff := workDiff s'\<rparr>"
proof -
  obtain h' m' where run: "clean_range ks (h, workDiff s) = Inr (h', m')"
    using clean_range_total [OF assms] by blast
  have unmarked: "\<forall>k a. workDiff s k = Some (Ref a) \<and> \<not> IsDel (h a)
                 \<longrightarrow> m' k = Some (Ref a) \<and> h' a = h a"
    using clean_range_unmarked [OF run] by blast
  have diff: "\<forall>a. WorkDiff.Difficulty (h' a) = WorkDiff.Difficulty (h a)"
    using clean_range_Difficulty [OF run] by blast
  show ?thesis
    unfolding cleanTick_eq [OF run] using unmarked diff by auto
qed

theorem cleanTick_frame_witness:
  "\<not> IsDel (example_store 2)
   \<and> workDiff (example_proxy\<lparr>workDiff := example_workDiff\<rparr>) ''carol'' = Some (Ref 2)
   \<and> (\<exists>h' s'. cleanTick 120000000 example_order
                  (example_store, example_proxy\<lparr>workDiff := example_workDiff\<rparr>)
                = ([TimerReset cleanTimer 120000000], Inr (h', s'))
              \<and> workDiff s' ''carol'' = Some (Ref 2)
              \<and> h' 2 = example_store 2
              \<and> WorkDiff.Difficulty (h' 0) = 4000)"
proof -
  have nonil: "\<forall>k. workDiff (example_proxy\<lparr>workDiff := example_workDiff\<rparr>) k \<noteq> Some Nil_ref"
    by (simp add: example_workDiff_def)
  have carol: "workDiff (example_proxy\<lparr>workDiff := example_workDiff\<rparr>) ''carol'' = Some (Ref 2)"
    by (simp add: example_workDiff_def)
  have live: "\<not> IsDel (example_store 2)" and d: "WorkDiff.Difficulty (example_store 0) = 4000"
    by (simp_all add: example_store_def)
  obtain h' s' where run: "cleanTick 120000000 example_order
                  (example_store, example_proxy\<lparr>workDiff := example_workDiff\<rparr>)
                = ([TimerReset cleanTimer 120000000], Inr (h', s'))"
    and frame: "\<forall>k a. workDiff (example_proxy\<lparr>workDiff := example_workDiff\<rparr>) k = Some (Ref a)
                   \<and> \<not> IsDel (example_store a)
                 \<longrightarrow> workDiff s' k = Some (Ref a) \<and> h' a = example_store a"
    and diff: "\<forall>a. WorkDiff.Difficulty (h' a) = WorkDiff.Difficulty (example_store a)"
    using cleanTick_frame [OF nonil, of 120000000 example_order example_store] by blast
  have "workDiff s' ''carol'' = Some (Ref 2) \<and> h' 2 = example_store 2"
    using frame carol live by blast
  moreover have "WorkDiff.Difficulty (h' 0) = 4000"
    using diff d by simp
  ultimately show ?thesis
    using run carol live by blast
qed

text \<open>
  C3, as amended. Take a map without nil pointers, a sweep that visits each of its keys
  once, and an entry \<open>k\<close> whose object is marked \<open>IsDel\<close> and is held by no other key.
  If the object has \<open>PassDel = False\<close> the sweep deletes the
  entry. If it has \<open>PassDel = True\<close> the sweep keeps the entry and sets \<open>PassDel\<close> to
  \<open>False\<close>; the next sweep then deletes it, unless the object was rewritten in between
  to one with \<open>IsDel = False\<close>, in which case the next sweep keeps the entry and the
  object as they are.
\<close>

theorem cleanTick_two_phase:
  assumes nonil: "\<forall>k. workDiff s k \<noteq> Some Nil_ref"
    and order: "distinct ks" "set ks = dom (workDiff s)"
    and entry: "workDiff s k = Some (Ref a)" "IsDel (h a)"
    and own: "\<forall>k'. k' \<noteq> k \<longrightarrow> workDiff s k' \<noteq> Some (Ref a)"
  shows "\<exists>h1 s1. cleanTick r ks (h, s) = ([TimerReset cleanTimer r], Inr (h1, s1))
           \<and> (\<not> PassDel (h a) \<longrightarrow> workDiff s1 k = None)
           \<and> (PassDel (h a) \<longrightarrow>
                workDiff s1 k = Some (Ref a) \<and> h1 a = (h a)\<lparr>PassDel := False\<rparr>
                \<and> (\<forall>ks2. distinct ks2 \<and> set ks2 = dom (workDiff s1) \<longrightarrow>
                      (\<exists>h2 s2. cleanTick r ks2 (h1, s1)
                                 = ([TimerReset cleanTimer r], Inr (h2, s2))
                               \<and> workDiff s2 k = None))
                \<and> (\<forall>ks2 w. \<not> IsDel w \<longrightarrow>
                      (\<exists>h2 s2. cleanTick r ks2 (h1(a := w), s1)
                                 = ([TimerReset cleanTimer r], Inr (h2, s2))
                               \<and> workDiff s2 k = Some (Ref a) \<and> h2 a = w)))"
proof -
  obtain h1 m1 where run: "clean_range ks (h, workDiff s) = Inr (h1, m1)"
    using clean_range_total [OF nonil] by blast
  have k: "k \<in> set ks"
    using order(2) entry(1) by auto
  have first: "m1 k = (if PassDel (h a) then Some (Ref a) else None)
             \<and> h1 a = (h a)\<lparr>PassDel := False\<rparr>"
    by (rule clean_range_marked [OF run order(1) k entry(1) own entry(2)])
  have shrink: "\<forall>k'. m1 k' = workDiff s k' \<or> m1 k' = None"
    using clean_range_shrinks [OF run] by blast
  have nonil1: "\<forall>k'. m1 k' \<noteq> Some Nil_ref"
    using shrink nonil by (metis option.distinct(1))
  have own1: "\<forall>k'. k' \<noteq> k \<longrightarrow> m1 k' \<noteq> Some (Ref a)"
    using shrink own by (metis option.distinct(1))
  have second: "\<exists>h2 m2. clean_range ks2 (h1, m1) = Inr (h2, m2) \<and> m2 k = None"
    if pass: "PassDel (h a)" and ord2: "distinct ks2" "set ks2 = dom m1" for ks2
  proof -
    obtain h2 m2 where run2: "clean_range ks2 (h1, m1) = Inr (h2, m2)"
      using clean_range_total [OF nonil1] by blast
    have k1: "m1 k = Some (Ref a)" and marked: "IsDel (h1 a)" and cleared: "\<not> PassDel (h1 a)"
      using first pass entry(2) by simp_all
    have k2: "k \<in> set ks2"
      using ord2(2) k1 by auto
    have "m2 k = (if PassDel (h1 a) then Some (Ref a) else None)
             \<and> h2 a = (h1 a)\<lparr>PassDel := False\<rparr>"
      by (rule clean_range_marked [OF run2 ord2(1) k2 k1 own1 marked])
    with cleared run2 show ?thesis by simp
  qed
  have restored: "\<exists>h2 m2. clean_range ks2 (h1(a := w), m1) = Inr (h2, m2)
                    \<and> m2 k = Some (Ref a) \<and> h2 a = w"
    if pass: "PassDel (h a)" and w: "\<not> IsDel w" for ks2 w
  proof -
    obtain h2 m2 where run2: "clean_range ks2 (h1(a := w), m1) = Inr (h2, m2)"
      using clean_range_total [OF nonil1] by blast
    have k1: "m1 k = Some (Ref a)"
      using first pass by simp
    have "m2 k = Some (Ref a) \<and> h2 a = (h1(a := w)) a"
      using w by (intro clean_range_unmarked [OF run2 k1]) simp
    with run2 show ?thesis by simp
  qed
  have tick1: "cleanTick r ks (h, s) = ([TimerReset cleanTimer r], Inr (h1, s\<lparr>workDiff := m1\<rparr>))"
    by (rule cleanTick_eq [OF run])
  have tick2: "\<exists>h2 s2. cleanTick r ks2 (h1, s\<lparr>workDiff := m1\<rparr>)
                  = ([TimerReset cleanTimer r], Inr (h2, s2)) \<and> workDiff s2 k = None"
    if pre: "PassDel (h a)" "distinct ks2" "set ks2 = dom m1" for ks2
  proof -
    obtain h2 m2 where "clean_range ks2 (h1, workDiff (s\<lparr>workDiff := m1\<rparr>)) = Inr (h2, m2)"
      and "m2 k = None"
      using second [OF pre] by auto
    then show ?thesis
      using cleanTick_eq [of ks2 h1 "s\<lparr>workDiff := m1\<rparr>" h2 m2 r] by simp
  qed
  have tick3: "\<exists>h2 s2. cleanTick r ks2 (h1(a := w), s\<lparr>workDiff := m1\<rparr>)
                  = ([TimerReset cleanTimer r], Inr (h2, s2))
                \<and> workDiff s2 k = Some (Ref a) \<and> h2 a = w"
    if pre: "PassDel (h a)" "\<not> IsDel w" for ks2 w
  proof -
    obtain h2 m2 where "clean_range ks2 (h1(a := w), workDiff (s\<lparr>workDiff := m1\<rparr>)) = Inr (h2, m2)"
      and "m2 k = Some (Ref a)" and "h2 a = w"
      using restored [OF pre, of ks2] by auto
    then show ?thesis
      using cleanTick_eq [of ks2 "h1(a := w)" "s\<lparr>workDiff := m1\<rparr>" h2 m2 r] by simp
  qed
  show ?thesis
    unfolding tick1 using first tick2 tick3 by simp
qed

theorem cleanTick_two_phase_witness:
  "IsDel (example_store 0) \<and> PassDel (example_store 0)
   \<and> workDiff (example_proxy\<lparr>workDiff := example_workDiff\<rparr>) ''alice'' = Some (Ref 0)
   \<and> (\<exists>h1 s1. cleanTick 120000000 example_order
                  (example_store, example_proxy\<lparr>workDiff := example_workDiff\<rparr>)
                = ([TimerReset cleanTimer 120000000], Inr (h1, s1))
              \<and> workDiff s1 ''alice'' = Some (Ref 0)
              \<and> h1 0 = \<lparr>WorkDiff.Difficulty = 4000, PassDel = False, IsDel = True\<rparr>)"
proof -
  have nonil: "\<forall>k. workDiff (example_proxy\<lparr>workDiff := example_workDiff\<rparr>) k \<noteq> Some Nil_ref"
    by (simp add: example_workDiff_def)
  have order: "distinct example_order"
    "set example_order = dom (workDiff (example_proxy\<lparr>workDiff := example_workDiff\<rparr>))"
    by (auto simp: example_order_def example_workDiff_def)
  have alice: "workDiff (example_proxy\<lparr>workDiff := example_workDiff\<rparr>) ''alice'' = Some (Ref 0)"
    by (simp add: example_workDiff_def)
  have own: "\<forall>k'. k' \<noteq> ''alice''
      \<longrightarrow> workDiff (example_proxy\<lparr>workDiff := example_workDiff\<rparr>) k' \<noteq> Some (Ref 0)"
    by (simp add: example_workDiff_def)
  have marked: "IsDel (example_store 0)" and pass: "PassDel (example_store 0)"
    and obj: "(example_store 0)\<lparr>PassDel := False\<rparr>
                = \<lparr>WorkDiff.Difficulty = 4000, PassDel = False, IsDel = True\<rparr>"
    by (simp_all add: example_store_def)
  show ?thesis
    using cleanTick_two_phase [where h = example_store and a = 0 and r = 120000000,
        OF nonil order alice marked own]
      alice marked pass obj by auto
qed

text \<open>
  The claim as the specification states it, for every map and every entry, fails where
  two keys hold the same object: with the object marked and \<open>PassDel = True\<close>, the
  sweep clears the flag at the key it visits first and deletes the other key in the same
  sweep, although that entry had \<open>PassDel = True\<close> when the sweep began.
\<close>

theorem cleanTick_two_phase_counterexample:
  "workDiff (example_proxy\<lparr>workDiff := shared_workDiff\<rparr>) ''alice.rig2'' = Some (Ref 0)
   \<and> IsDel (example_store 0) \<and> PassDel (example_store 0)
   \<and> cleanTick 120000000 [''alice'', ''alice.rig2'']
        (example_store, example_proxy\<lparr>workDiff := shared_workDiff\<rparr>)
     = ([TimerReset cleanTimer 120000000],
        Inr (example_store(0 := \<lparr>WorkDiff.Difficulty = 4000, PassDel = False, IsDel = True\<rparr>),
             example_proxy\<lparr>workDiff := shared_workDiff(''alice.rig2'' := None)\<rparr>))
   \<and> (shared_workDiff(''alice.rig2'' := None)) ''alice.rig2'' = None"
  by (simp add: cleanTick_def clean_entry_def shared_workDiff_def example_store_def
      bind_def lift_def emit_def ret_def Let_def)

text \<open>A nil pointer in the map makes the sweep panic.\<close>

lemma clean_range_nil_pointer:
  "clean_range [''ghost''] (example_store, nil_workDiff)
     = Inl (Panic ''nil pointer dereference'')"
  by (simp add: clean_entry_def nil_workDiff_def)

subsection \<open>The state-update timer\<close>

text \<open>
  C5. A turn of the state-update loop with a template cached makes exactly one backend
  write, of the instance name and the template's height and difficulty; when the write
  succeeds the server is marked ok (counter zero), when it fails the failure is logged
  and the server is marked sick (counter plus one). With no template cached the turn
  writes nothing and leaves the server, its counter included, as it was. Either way the
  timer is reset with the state-update interval.
\<close>

theorem stateUpdateTick_write:
  "(blockTemplate s = Some t \<longrightarrow>
      stateUpdateTick None iv s
        = ([WriteNodeState (Config.Name (config s)) (Height t) (BlockTemplate.Difficulty t),
            TimerReset stateUpdateTimer iv],
           Inr (markOk s))
      \<and> failsCount (markOk s) = 0
      \<and> stateUpdateTick (Some e) iv s
        = ([WriteNodeState (Config.Name (config s)) (Height t) (BlockTemplate.Difficulty t),
            Log ''Failed to write node state to backend: %v'',
            TimerReset stateUpdateTimer iv],
           Inr (markSick s))
      \<and> failsCount (markSick s) = failsCount s + 1)
   \<and> (blockTemplate s = None \<longrightarrow>
        stateUpdateTick err iv s = ([TimerReset stateUpdateTimer iv], Inr s))"
  by (simp add: stateUpdateTick_def currentBlockTemplate_def bind_def emit_def ret_def
      markSick_def markOk_def)

theorem stateUpdateTick_write_witness:
  "stateUpdateTick None 3000000000 (markSick (example_proxy\<lparr>blockTemplate := Some example_template\<rparr>))
     = ([WriteNodeState ''pool-1'' 1200345 8800000000, TimerReset stateUpdateTimer 3000000000],
        Inr (example_proxy\<lparr>blockTemplate := Some example_template\<rparr>))
   \<and> stateUpdateTick (Some ''connection refused'') 3000000000
        (example_proxy\<lparr>blockTemplate := Some example_template\<rparr>)
     = ([WriteNodeState ''pool-1'' 1200345 8800000000,
         Log ''Failed to write node state to backend: %v'',
         TimerReset stateUpdateTimer 3000000000],
        Inr (example_proxy\<lparr>blockTemplate := Some example_template, failsCount := 1\<rparr>))
   \<and> stateUpdateTick (Some ''connection refused'') 3000000000 example_proxy
     = ([TimerReset stateUpdateTimer 3000000000], Inr example_proxy)"
  using stateUpdateTick_write [of "markSick (example_proxy\<lparr>blockTemplate := Some example_template\<rparr>)"
      example_template 3000000000 "''connection refused''" None]
    stateUpdateTick_write [of "example_proxy\<lparr>blockTemplate := Some example_template\<rparr>"
      example_template 3000000000 "''connection refused''" None]
    stateUpdateTick_write [of example_proxy example_template 3000000000 "''connection refused''"
      "Some ''connection refused''"]
  by (simp add: example_proxy_def example_cfg_def example_template_def markSick_def markOk_def)

subsection \<open>The notification endpoint\<close>

text \<open>
  C7, as amended. For a request whose method is not POST the handler calls
  \<^verbatim>\<open>http.Error\<close> once, with the code 405 and a message that ends in the method
  received; it calls for no refresh and leaves the server as it was. The response sent
  has the status 405 and a plain-text content type; its body is that message and a
  newline, except in answer to a HEAD request, where no body is sent. For a POST the
  handler writes no response, logs the notification and calls \<^verbatim>\<open>fetchBlockTemplate\<close>
  once.
\<close>

theorem Start_handler_method:
  "(Method r \<noteq> ''POST'' \<longrightarrow>
      Start_handler ext s r
        = ([HttpError (''rpc: POST method required, received '' @ Method r) 405], Inr s)
      \<and> responses r (fst (Start_handler ext s r))
        = [\<lparr>StatusCode = 405, ContentType = ''text/plain; charset=utf-8'',
            Body = (if Method r = ''HEAD'' then []
                    else ''rpc: POST method required, received '' @ Method r @ [CHR 0x0A])\<rparr>]
      \<and> refreshes (fst (Start_handler ext s r)) = 0)
   \<and> (Method r = ''POST'' \<longrightarrow>
        Start_handler ext s r
          = ([Log ''Received new job notification from %v'', Call_fetchBlockTemplate],
             Inr (fetchBlockTemplate ext s))
        \<and> responses r (fst (Start_handler ext s r)) = []
        \<and> refreshes (fst (Start_handler ext s r)) = 1)"
proof (cases "Method r = ''POST''")
  case True
  then have "Start_handler ext s r
          = ([Log ''Received new job notification from %v'', Call_fetchBlockTemplate],
             Inr (fetchBlockTemplate ext s))"
    by (simp add: Start_handler_def bind_def emit_def ret_def)
  with True show ?thesis
    by (simp add: refreshes_def)
next
  case False
  then have "Start_handler ext s r
        = ([HttpError (''rpc: POST method required, received '' @ Method r) 405], Inr s)"
    by (simp add: Start_handler_def bind_def emit_def ret_def)
  with False show ?thesis
    by (simp add: http_Error_def sent_def refreshes_def)
qed

text \<open>The scenario of the specification: a GET is answered with a 405 that names GET.\<close>

theorem Start_handler_method_witness:
  "Method example_get \<noteq> ''POST''
   \<and> responses example_get (fst (Start_handler example_ext example_proxy example_get))
     = [\<lparr>StatusCode = 405, ContentType = ''text/plain; charset=utf-8'',
         Body = ''rpc: POST method required, received GET'' @ [CHR 0x0A]\<rparr>]
   \<and> snd (Start_handler example_ext example_proxy example_get) = Inr example_proxy
   \<and> refreshes (fst (Start_handler example_ext example_proxy example_get)) = 0
   \<and> Start_handler example_ext example_proxy example_post
     = ([Log ''Received new job notification from %v'', Call_fetchBlockTemplate],
        Inr (example_proxy\<lparr>blockTemplate := Some example_template\<rparr>))"
proof -
  have fetch: "fetchBlockTemplate example_ext example_proxy
                 = example_proxy\<lparr>blockTemplate := Some example_template\<rparr>"
    by (simp add: example_ext_def)
  have get: "Method example_get \<noteq> ''POST''" "Method example_get \<noteq> ''HEAD''"
    "Method example_get = ''GET''"
    and post: "Method example_post = ''POST''"
    by (simp_all add: example_get_def example_post_def)
  show ?thesis
    using Start_handler_method [of example_get example_ext example_proxy]
      Start_handler_method [of example_post example_ext example_proxy]
      get post fetch
    by (simp add: http_Error_def sent_def refreshes_def)
qed

text \<open>
  The claim as the specification states it fails for a HEAD request: the method is not
  POST, the answer is a 405, and it carries no message.
\<close>

theorem Start_handler_method_counterexample:
  "Method example_head \<noteq> ''POST''
   \<and> Start_handler example_ext example_proxy example_head
     = ([HttpError ''rpc: POST method required, received HEAD'' 405], Inr example_proxy)
   \<and> responses example_head (fst (Start_handler example_ext example_proxy example_head))
     = [\<lparr>StatusCode = 405, ContentType = ''text/plain; charset=utf-8'', Body = []\<rparr>]"
  by (simp add: Start_handler_def example_head_def bind_def emit_def ret_def
      http_Error_def sent_def)

subsection \<open>Construction\<close>

text \<open>Sequencing: an abort ends the run, a result comes from results.\<close>

lemma bind_Inl:
  assumes "m = (tr, Inl e)"
  shows "bind m f = (tr, Inl e)"
  using assms by (simp add: bind_def)

lemma bind_Inr:
  assumes "m = (tr, Inr x)"
  shows "bind m f = (tr @ fst (f x), snd (f x))"
  using assms by (simp add: bind_def split: prod.splits)

lemma bind_eq_Inr:
  assumes "bind m f = (tr, Inr y)"
  shows "\<exists>tr1 x tr2. m = (tr1, Inr x) \<and> f x = (tr2, Inr y) \<and> tr = tr1 @ tr2"
  using assms by (auto simp: bind_def split: prod.splits sum.splits)

lemma NewProxy_config_Inr:
  assumes "NewProxy_config ext cfg = (tr, Inr p)"
  shows "Config.Name cfg \<noteq> []"
    and "\<not> (MinDiffFloat (Stratum (Proxy cfg)) < float64_0_1
            \<and> Protocol (Stratum (Proxy cfg)) = ''EthereumStratum'')"
    and "upstream p = 0" and "config p = cfg" and "workDiff p = Map.empty"
  using assms
  by (auto simp: NewProxy_config_def bind_def log_Fatal_def ret_def emit_def lift_def Let_def
      split: if_splits sum.splits prod.splits)

lemma new_upstreams_Inr:
  assumes "new_upstreams ext vs = (tr, Inr cs)"
  shows "length cs = length vs"
  using assms
proof (induction vs arbitrary: tr cs)
  case Nil
  then show ?case by (simp add: ret_def)
next
  case (Cons v vs)
  then show ?case
    by (auto simp: bind_def lift_def emit_def ret_def split: prod.splits sum.splits)
qed

lemma NewProxy_upstreams_Inr:
  assumes "NewProxy_upstreams ext cfg p = (tr, Inr p')"
  shows "upstream p' = upstream p" and "length (upstreams p') = length (Upstream cfg)"
    and "\<exists>c. rpc p' = Inr c"
  using assms new_upstreams_Inr [of ext "Upstream cfg"]
  by (auto simp: NewProxy_upstreams_def bind_def lift_def emit_def ret_def Let_def
      split: prod.splits sum.splits)

lemma NewProxy_stratum_Inr:
  assumes "NewProxy_stratum cfg p = (tr, Inr p')"
  shows "Enabled (Stratum (Proxy cfg))"
    and "Protocol (Stratum (Proxy cfg)) = ''Stratum-Proxy''
       \<or> Protocol (Stratum (Proxy cfg)) = ''EthereumStratum''"
    and "p' = p\<lparr>sessions := Some {}\<rparr>"
  using assms
  by (auto simp: NewProxy_stratum_def bind_def log_Fatal_def emit_def ret_def Let_def
      split: if_splits)

lemma NewProxy_timers_Inr:
  assumes "NewProxy_timers ext cfg p = (tr, Inr p')"
  shows "\<exists>d refreshIntv cleanIntv checkIntv stateUpdateIntv.
           MustParseDuration ext (HashrateExpiration (Proxy cfg)) = Inr d
         \<and> MustParseDuration ext (BlockRefreshInterval (Proxy cfg)) = Inr refreshIntv
         \<and> MustParseDuration ext (CleanInterval (Proxy cfg)) = Inr cleanIntv
         \<and> MustParseDuration ext (UpstreamCheckInterval cfg) = Inr checkIntv
         \<and> MustParseDuration ext (StateUpdateInterval (Proxy cfg)) = Inr stateUpdateIntv
         \<and> p' = (fetchBlockTemplate ext p)\<lparr>hashrateExpiration := d\<rparr>
         \<and> tr = [Call_fetchBlockTemplate,
                 NewTimer refreshTimer refreshIntv, Log ''Set block refresh every %v'',
                 NewTimer cleanTimer cleanIntv,
                 NewTimer checkTimer checkIntv,
                 NewTimer stateUpdateTimer stateUpdateIntv,
                 Go (cleanLoop refreshIntv), Go (refreshLoop refreshIntv),
                 Go (checkLoop checkIntv), Go (stateUpdateLoop stateUpdateIntv)]"
  using assms
  by (auto simp: NewProxy_timers_def bind_def lift_def emit_def ret_def Let_def
      split: sum.splits)

text \<open>What the first phases log and call, and nothing else.\<close>

lemma NewProxy_config_quiet:
  "\<forall>x\<in>set (fst (NewProxy_config ext cfg)). x = PolicyStart \<or> (\<exists>m. x = Log m)"
  by (auto simp: NewProxy_config_def bind_def log_Fatal_def ret_def emit_def lift_def Let_def
      split: if_splits sum.splits prod.splits)

lemma new_upstreams_quiet:
  "\<forall>x\<in>set (fst (new_upstreams ext vs)). \<exists>m. x = Log m"
proof (induction vs)
  case Nil
  then show ?case by (simp add: ret_def)
next
  case (Cons v vs)
  then show ?case
    by (auto simp: bind_def lift_def emit_def ret_def split: prod.splits sum.splits)
qed

lemma NewProxy_upstreams_quiet:
  "\<forall>x\<in>set (fst (NewProxy_upstreams ext cfg p)). \<exists>m. x = Log m"
  using new_upstreams_quiet [of ext "Upstream cfg"]
  by (auto simp: NewProxy_upstreams_def bind_def lift_def emit_def ret_def Let_def
      split: prod.splits sum.splits)

lemma NewProxy_stratum_trace:
  assumes "NewProxy_stratum cfg p = (tr, Inr p')"
  shows "tr = [Go ListenSP] \<or> tr = [Go ListenES]"
  using assms
  by (auto simp: NewProxy_stratum_def bind_def log_Fatal_def emit_def ret_def Let_def
      split: if_splits)

text \<open>The four phases of a construction that returns.\<close>

lemma NewProxy_Inr:
  assumes "NewProxy ext cfg = (tr, Inr s)"
  shows "\<exists>tr1 p1 tr2 p2 tr3 p3 tr4.
           NewProxy_config ext cfg = (tr1, Inr p1)
         \<and> NewProxy_upstreams ext cfg p1 = (tr2, Inr p2)
         \<and> NewProxy_stratum cfg p2 = (tr3, Inr p3)
         \<and> NewProxy_timers ext cfg p3 = (tr4, Inr s)
         \<and> tr = tr1 @ tr2 @ tr3 @ tr4"
proof -
  obtain tr1 p1 trA where 1: "NewProxy_config ext cfg = (tr1, Inr p1)"
    and A: "bind (NewProxy_upstreams ext cfg p1) (\<lambda>proxy.
             bind (NewProxy_stratum cfg proxy) (\<lambda>proxy.
             NewProxy_timers ext cfg proxy)) = (trA, Inr s)"
    and trA: "tr = tr1 @ trA"
    using bind_eq_Inr [OF assms [unfolded NewProxy_def]] by blast
  obtain tr2 p2 trB where 2: "NewProxy_upstreams ext cfg p1 = (tr2, Inr p2)"
    and B: "bind (NewProxy_stratum cfg p2) (\<lambda>proxy.
             NewProxy_timers ext cfg proxy) = (trB, Inr s)"
    and trB: "trA = tr2 @ trB"
    using bind_eq_Inr [OF A] by blast
  obtain tr3 p3 tr4 where 3: "NewProxy_stratum cfg p2 = (tr3, Inr p3)"
    and 4: "NewProxy_timers ext cfg p3 = (tr4, Inr s)"
    and tr4: "trB = tr3 @ tr4"
    using bind_eq_Inr [OF B] by blast
  show ?thesis
    using 1 2 3 4 trA trB tr4 by simp
qed

text \<open>The effects of a construction that returns, in order.\<close>

lemma NewProxy_trace:
  assumes "NewProxy ext cfg = (tr, Inr s)"
  shows "\<exists>pre refreshIntv cleanIntv checkIntv stateUpdateIntv.
           (\<forall>x\<in>set pre. x = PolicyStart \<or> (\<exists>m. x = Log m)
                        \<or> x = Go ListenSP \<or> x = Go ListenES)
         \<and> MustParseDuration ext (BlockRefreshInterval (Proxy cfg)) = Inr refreshIntv
         \<and> MustParseDuration ext (CleanInterval (Proxy cfg)) = Inr cleanIntv
         \<and> MustParseDuration ext (UpstreamCheckInterval cfg) = Inr checkIntv
         \<and> MustParseDuration ext (StateUpdateInterval (Proxy cfg)) = Inr stateUpdateIntv
         \<and> tr = pre @ [Call_fetchBlockTemplate,
                 NewTimer refreshTimer refreshIntv, Log ''Set block refresh every %v'',
                 NewTimer cleanTimer cleanIntv,
                 NewTimer checkTimer checkIntv,
                 NewTimer stateUpdateTimer stateUpdateIntv,
                 Go (cleanLoop refreshIntv), Go (refreshLoop refreshIntv),
                 Go (checkLoop checkIntv), Go (stateUpdateLoop stateUpdateIntv)]"
proof -
  obtain tr1 p1 tr2 p2 tr3 p3 tr4 where 1: "NewProxy_config ext cfg = (tr1, Inr p1)"
    and 2: "NewProxy_upstreams ext cfg p1 = (tr2, Inr p2)"
    and 3: "NewProxy_stratum cfg p2 = (tr3, Inr p3)"
    and 4: "NewProxy_timers ext cfg p3 = (tr4, Inr s)"
    and tr: "tr = tr1 @ tr2 @ tr3 @ tr4"
    using NewProxy_Inr [OF assms(1)] by blast
  have "\<forall>x\<in>set tr1. x = PolicyStart \<or> (\<exists>m. x = Log m)"
    using NewProxy_config_quiet [of ext cfg] 1 by simp
  moreover have "\<forall>x\<in>set tr2. \<exists>m. x = Log m"
    using NewProxy_upstreams_quiet [of ext cfg p1] 2 by simp
  moreover have "tr3 = [Go ListenSP] \<or> tr3 = [Go ListenES]"
    by (rule NewProxy_stratum_trace [OF 3])
  ultimately have pre: "\<forall>x\<in>set (tr1 @ tr2 @ tr3). x = PolicyStart \<or> (\<exists>m. x = Log m)
                        \<or> x = Go ListenSP \<or> x = Go ListenES"
    by auto
  have "tr = (tr1 @ tr2 @ tr3) @ tr4"
    using tr by simp
  then show ?thesis
    using NewProxy_timers_Inr [OF 4] pre by blast
qed

lemma tenth_below_float64_0_1: "(1 / 10 :: real) < float64_0_1"
  by (simp add: float64_0_1_def)

lemma NewProxy_config_name:
  assumes "Config.Name cfg = []"
  shows "NewProxy_config ext cfg = log_Fatal ''You must set instance name''"
  using assms by (simp add: NewProxy_config_def bind_def log_Fatal_def)

lemma NewProxy_stratum_fatal:
  assumes "\<not> Enabled (Stratum (Proxy cfg))
         \<or> (Protocol (Stratum (Proxy cfg)) \<noteq> ''Stratum-Proxy''
            \<and> Protocol (Stratum (Proxy cfg)) \<noteq> ''EthereumStratum'')"
  shows "\<exists>msg. NewProxy_stratum cfg p = ([Log msg], Inl (Fatal msg))"
  using assms by (auto simp: NewProxy_stratum_def log_Fatal_def Let_def)

text \<open>The server of the example is what \<^verbatim>\<open>NewProxy\<close> builds from its configuration.\<close>

lemma NewProxy_example:
  "NewProxy example_ext example_cfg
     = ([PolicyStart,
         Log ''Set minimum float difficulty to %v'',
         Log ''Set maximum float difficulty to %v'',
         Log ''Set nonce size to %v'',
         Log ''Upstream: %s => %s'', Log ''Upstream: %s => %s'', Log ''Upstream: %s => %s'',
         Log ''Default upstream: %s => %s'',
         Go ListenES,
         Call_fetchBlockTemplate,
         NewTimer refreshTimer 120000000, Log ''Set block refresh every %v'',
         NewTimer cleanTimer 600000000000,
         NewTimer checkTimer 5000000000,
         NewTimer stateUpdateTimer 3000000000,
         Go (cleanLoop 120000000), Go (refreshLoop 120000000),
         Go (checkLoop 5000000000), Go (stateUpdateLoop 3000000000)],
        Inr (example_proxy\<lparr>blockTemplate := Some example_template\<rparr>))"
  by (simp add: NewProxy_def NewProxy_config_def NewProxy_upstreams_def NewProxy_stratum_def
      NewProxy_timers_def example_ext_def example_cfg_def example_proxy_def example_parse_def
      bind_def lift_def emit_def ret_def log_Fatal_def float64_0_1_def rpc_def index_def)

text \<open>
  C6. \<^verbatim>\<open>NewProxy\<close> returns no server when the instance name is empty, or the stratum
  endpoint is disabled, or the protocol is neither of the two known ones, or the protocol
  is EthereumStratum and the minimum float difficulty is below one tenth: the run ends
  in an abort, whatever the collaborators do, and before any of the later construction
  steps (no listener or loop started, no template fetched, no timer created). With an
  empty name the abort is the first thing that happens: one fatal message, nothing else.
\<close>

theorem NewProxy_fatal:
  assumes "Config.Name cfg = []
         \<or> \<not> Enabled (Stratum (Proxy cfg))
         \<or> (Protocol (Stratum (Proxy cfg)) \<noteq> ''Stratum-Proxy''
            \<and> Protocol (Stratum (Proxy cfg)) \<noteq> ''EthereumStratum'')
         \<or> (Protocol (Stratum (Proxy cfg)) = ''EthereumStratum''
            \<and> MinDiffFloat (Stratum (Proxy cfg)) < 1 / 10)"
  shows "\<exists>tr e. NewProxy ext cfg = (tr, Inl e)
           \<and> (\<forall>x\<in>set tr. \<not> started x)
           \<and> (Config.Name cfg = [] \<longrightarrow>
                tr = [Log ''You must set instance name'']
                \<and> e = Fatal ''You must set instance name'')"
proof -
  obtain tr1 r1 where 1: "NewProxy_config ext cfg = (tr1, r1)"
    by (cases "NewProxy_config ext cfg")
  have quiet1: "\<forall>x\<in>set tr1. \<not> started x"
    using NewProxy_config_quiet [of ext cfg] 1 by auto
  show ?thesis
  proof (cases r1)
    case (Inl e)
    have "NewProxy ext cfg = (tr1, Inl e)"
      unfolding NewProxy_def using 1 Inl by (intro bind_Inl) simp
    moreover have "tr1 = [Log ''You must set instance name'']
        \<and> e = Fatal ''You must set instance name''" if "Config.Name cfg = []"
      using NewProxy_config_name [OF that, of ext] 1 Inl by (simp add: log_Fatal_def)
    ultimately show ?thesis
      using quiet1 by simp
  next
    case (Inr p1)
    have name: "Config.Name cfg \<noteq> []"
      and diff: "\<not> (MinDiffFloat (Stratum (Proxy cfg)) < float64_0_1
            \<and> Protocol (Stratum (Proxy cfg)) = ''EthereumStratum'')"
      using NewProxy_config_Inr(1,2) [of ext cfg tr1 p1] 1 Inr by simp_all
    have stratum: "\<not> Enabled (Stratum (Proxy cfg))
         \<or> (Protocol (Stratum (Proxy cfg)) \<noteq> ''Stratum-Proxy''
            \<and> Protocol (Stratum (Proxy cfg)) \<noteq> ''EthereumStratum'')"
      using assms name diff tenth_below_float64_0_1 by auto
    obtain tr2 r2 where 2: "NewProxy_upstreams ext cfg p1 = (tr2, r2)"
      by (cases "NewProxy_upstreams ext cfg p1")
    have quiet2: "\<forall>x\<in>set tr2. \<not> started x"
      using NewProxy_upstreams_quiet [of ext cfg p1] 2 by auto
    have "\<exists>tr e. NewProxy ext cfg = (tr, Inl e) \<and> (\<forall>x\<in>set tr. \<not> started x)"
    proof (cases r2)
      case (Inl e)
      have "NewProxy ext cfg = (tr1 @ tr2, Inl e)"
        unfolding NewProxy_def using 1 2 Inl \<open>r1 = Inr p1\<close> by (simp add: bind_def)
      then show ?thesis
        using quiet1 quiet2 by auto
    next
      case (Inr p2)
      obtain msg where "NewProxy_stratum cfg p2 = ([Log msg], Inl (Fatal msg))"
        using NewProxy_stratum_fatal [OF stratum] by blast
      then have "NewProxy ext cfg = (tr1 @ tr2 @ [Log msg], Inl (Fatal msg))"
        unfolding NewProxy_def using 1 2 Inr \<open>r1 = Inr p1\<close> by (simp add: bind_def)
      then show ?thesis
        using quiet1 quiet2 by auto
    qed
    then show ?thesis
      using name by auto
  qed
qed

theorem NewProxy_fatal_witness:
  "NewProxy example_ext (example_cfg\<lparr>Config.Name := []\<rparr>)
     = ([Log ''You must set instance name''], Inl (Fatal ''You must set instance name''))
   \<and> snd (NewProxy example_ext (example_cfg\<lparr>Proxy := example_disabled\<rparr>))
     = Inl (Fatal ''Stratum endpoint is not configured properly.'')
   \<and> snd (NewProxy example_ext (example_cfg\<lparr>Proxy := example_protocol\<rparr>))
     = Inl (Fatal ''Please choose either Stratum-Proxy or EthereumStratum protocol for your stratum endpoint.'')
   \<and> snd (NewProxy example_ext (example_cfg\<lparr>Proxy := example_min_diff\<rparr>))
     = Inl (Fatal ''For EthereumStratum protocol type, the minimum float difficulty must be set to at least 0.1'')"
proof -
  have name: "NewProxy example_ext (example_cfg\<lparr>Config.Name := []\<rparr>)
     = ([Log ''You must set instance name''], Inl (Fatal ''You must set instance name''))"
    using NewProxy_fatal [of "example_cfg\<lparr>Config.Name := []\<rparr>" example_ext]
    by auto
  have rest: "snd (NewProxy example_ext (example_cfg\<lparr>Proxy := example_disabled\<rparr>))
     = Inl (Fatal ''Stratum endpoint is not configured properly.'')"
    "snd (NewProxy example_ext (example_cfg\<lparr>Proxy := example_protocol\<rparr>))
     = Inl (Fatal ''Please choose either Stratum-Proxy or EthereumStratum protocol for your stratum endpoint.'')"
    "snd (NewProxy example_ext (example_cfg\<lparr>Proxy := example_min_diff\<rparr>))
     = Inl (Fatal ''For EthereumStratum protocol type, the minimum float difficulty must be set to at least 0.1'')"
    by (simp_all add: NewProxy_def NewProxy_config_def NewProxy_upstreams_def
        NewProxy_stratum_def example_ext_def example_cfg_def example_parse_def
        example_disabled_def example_protocol_def example_min_diff_def
        bind_def lift_def emit_def ret_def log_Fatal_def float64_0_1_def rpc_def index_def)
  show ?thesis
    using name rest by simp
qed

subsection \<open>The active upstream of a running server\<close>

text \<open>A sweep over a non-empty list of at most \<open>2 ^ 31\<close> upstreams stores an index of it.\<close>

lemma checkUpstreams_valid:
  assumes "upstreams s \<noteq> []" and "length (upstreams s) \<le> 2 ^ 31"
  shows "\<exists>tr s'. checkUpstreams Check s = (tr, Inr s') \<and> upstreams s' = upstreams s
           \<and> 0 \<le> sint (upstream s') \<and> nat (sint (upstream s')) < length (upstreams s')"
proof (cases "\<exists>i<length (upstreams s). Check i")
  case True
  then have "\<exists>i. (i < length (upstreams s) \<and> Check i)
      \<and> (\<forall>j<i. \<not> (j < length (upstreams s) \<and> Check j))"
    by (subst (asm) exists_least_iff)
  then obtain i where len: "i < length (upstreams s)" and chk: "Check i"
    and min: "\<forall>j<i. \<not> (j < length (upstreams s) \<and> Check j)"
    by blast
  have least: "\<forall>j<i. \<not> Check j"
    using min len by auto
  have loop: "fold (check_step Check) [0..<length (upstreams s)] (0, False)
                = (word_of_nat i, True)"
    using len chk least by (rule check_loop_first)
  have idx: "index (upstreams s) (word_of_nat i) = Inr (upstreams s ! i)"
    using len assms(2) by (rule index_word_of_nat(1))
  have val: "sint (word_of_nat i :: int32) = int i"
    using len assms(2) by (rule index_word_of_nat(2))
  have res: "checkUpstreams Check s =
           (if upstream s \<noteq> word_of_nat i then [Log ''Switching to %v upstream''] else [],
            Inr (s\<lparr>upstream := word_of_nat i\<rparr>))"
    by (rule checkUpstreams_candidate [OF loop idx])
  show ?thesis
    unfolding res using val len by simp
next
  case False
  then have loop: "fold (check_step Check) [0..<length (upstreams s)] (0, False) = (0, False)"
    by (intro check_loop_none_upt) simp
  have res: "checkUpstreams Check s =
           (if upstream s \<noteq> 0 then [Log ''Switching to %v upstream''] else [],
            Inr (s\<lparr>upstream := 0\<rparr>))"
    by (rule checkUpstreams_candidate [OF loop index_zero [OF assms(1)]])
  show ?thesis
    unfolding res using assms(1) by simp
qed

text \<open>What the operations leave of the server they start from.\<close>

lemma checkTick_Inr:
  assumes "checkTick Check iv s = (tr, Inr s')"
  shows "\<exists>tr1. checkUpstreams Check s = (tr1, Inr s')"
  using assms
  by (auto simp: checkTick_def bind_def emit_def ret_def split: prod.splits sum.splits)

lemma refreshTick_Inr:
  assumes "refreshTick ext iv s = (tr, Inr s')"
  shows "s' = fetchBlockTemplate ext s"
  using assms by (auto simp: refreshTick_def bind_def emit_def ret_def)

lemma cleanTick_Inr:
  assumes "cleanTick iv ks (h, s) = (tr, Inr (h', s'))"
  shows "s' = s\<lparr>workDiff := workDiff s'\<rparr>"
  using assms
  by (auto simp: cleanTick_def bind_def lift_def emit_def ret_def split: prod.splits sum.splits)

lemma stateUpdateTick_Inr:
  assumes "stateUpdateTick err iv s = (tr, Inr s')"
  shows "s' = s\<lparr>failsCount := failsCount s'\<rparr>"
  using assms
  by (auto simp: stateUpdateTick_def bind_def emit_def ret_def markSick_def markOk_def
      split: option.splits)

lemma Start_handler_Inr:
  assumes "Start_handler ext s r = (tr, Inr s')"
  shows "s' = s \<or> s' = fetchBlockTemplate ext s"
  using assms by (auto simp: Start_handler_def bind_def emit_def ret_def split: if_splits)

lemma index_Inr:
  assumes "index xs i = Inr x"
  shows "0 \<le> sint i" and "nat (sint i) < length xs" and "x = xs ! nat (sint i)"
  using assms by (auto simp: index_def split: if_splits)

lemma NewProxy_upstream:
  assumes "NewProxy ext cfg = (tr, Inr s)"
    and "\<forall>s. upstream (fetchBlockTemplate ext s) = upstream s
            \<and> upstreams (fetchBlockTemplate ext s) = upstreams s"
  shows "upstream s = 0" and "length (upstreams s) = length (Upstream cfg)"
    and "upstreams s \<noteq> []"
proof -
  obtain tr1 p1 tr2 p2 tr3 p3 tr4 where 1: "NewProxy_config ext cfg = (tr1, Inr p1)"
    and 2: "NewProxy_upstreams ext cfg p1 = (tr2, Inr p2)"
    and 3: "NewProxy_stratum cfg p2 = (tr3, Inr p3)"
    and 4: "NewProxy_timers ext cfg p3 = (tr4, Inr s)"
    using NewProxy_Inr [OF assms(1)] by blast
  have p2: "upstream p2 = 0" "length (upstreams p2) = length (Upstream cfg)"
    using NewProxy_config_Inr(3) [OF 1] NewProxy_upstreams_Inr(1,2) [OF 2] by simp_all
  obtain c where "rpc p2 = Inr c"
    using NewProxy_upstreams_Inr(3) [OF 2] by blast
  then have some: "upstreams p2 \<noteq> []"
    using index_Inr(2) [of "upstreams p2" "upstream p2" c] by (auto simp: rpc_def)
  have p3: "upstream p3 = upstream p2" "upstreams p3 = upstreams p2"
    using NewProxy_stratum_Inr(3) [OF 3] by simp_all
  obtain d where "s = (fetchBlockTemplate ext p3)\<lparr>hashrateExpiration := d\<rparr>"
    using NewProxy_timers_Inr [OF 4] by blast
  then have s: "upstream s = upstream p3" "upstreams s = upstreams p3"
    using assms(2) by simp_all
  show "upstream s = 0" and "length (upstreams s) = length (Upstream cfg)"
    and "upstreams s \<noteq> []"
    using s p3 p2 some by simp_all
qed

lemma reachable_upstream:
  assumes "reachable ext cfg s"
    and "\<forall>s. upstream (fetchBlockTemplate ext s) = upstream s
            \<and> upstreams (fetchBlockTemplate ext s) = upstreams s"
    and "length (Upstream cfg) \<le> 2 ^ 31"
  shows "length (upstreams s) = length (Upstream cfg) \<and> upstreams s \<noteq> []
       \<and> 0 \<le> sint (upstream s) \<and> nat (sint (upstream s)) < length (upstreams s)"
  using assms
proof (induction rule: reachable.induct)
  case (constructed tr s)
  have zero: "upstream s = 0" and len: "length (upstreams s) = length (Upstream cfg)"
    and some: "upstreams s \<noteq> []"
    using NewProxy_upstream [OF constructed(1,2)] by blast+
  have "0 \<le> sint (upstream s)" and "nat (sint (upstream s)) < length (upstreams s)"
    using zero some by simp_all
  with len some show ?case
    by blast
next
  case (checked s Check checkIntv tr s')
  have inv: "length (upstreams s) = length (Upstream cfg) \<and> upstreams s \<noteq> []"
    using checked.IH checked.prems by simp
  obtain tr1 where run: "checkUpstreams Check s = (tr1, Inr s')"
    using checkTick_Inr [OF checked.hyps(2)] by blast
  have "length (upstreams s) \<le> 2 ^ 31"
    using inv checked.prems(2) by simp
  then show ?case
    using checkUpstreams_valid [of s Check] inv run by auto
next
  case (refreshed s refreshIntv tr s')
  then show ?case
    using refreshTick_Inr [OF refreshed.hyps(2)] by simp
next
  case (cleaned s refreshIntv ks h tr h' s')
  have "upstream s' = upstream s \<and> upstreams s' = upstreams s"
    using cleanTick_Inr [OF cleaned.hyps(2)]
    by (metis ProxyServer.select_convs(3,4) ProxyServer.surjective ProxyServer.update_convs(10))
  with cleaned show ?case by simp
next
  case (state_updated s err stateUpdateIntv tr s')
  have "upstream s' = upstream s \<and> upstreams s' = upstreams s"
    using stateUpdateTick_Inr [OF state_updated.hyps(2)]
    by (metis ProxyServer.select_convs(3,4) ProxyServer.surjective ProxyServer.update_convs(7))
  with state_updated show ?case by simp
next
  case (notified s r tr s')
  then show ?case
    using Start_handler_Inr [OF notified.hyps(2)] by auto
qed

text \<open>
  C10. \<^verbatim>\<open>NewProxy\<close> returns a server only for a non-empty upstream list, with one
  client per configured upstream and the active index 0. In every state the running
  server reaches the index is an index of that list, so \<^verbatim>\<open>rpc\<close> returns the client at
  that index and does not panic, and a sweep from that state returns and stores again
  an index of the list. The list has at most \<open>2 ^ 31\<close> entries, and
  \<^verbatim>\<open>fetchBlockTemplate\<close> (not in proxy.go) writes neither the index nor the list.
\<close>

theorem rpc_never_out_of_bounds:
  assumes "reachable ext cfg s"
    and "length (Upstream cfg) \<le> 2 ^ 31"
    and "\<forall>s. upstream (fetchBlockTemplate ext s) = upstream s
            \<and> upstreams (fetchBlockTemplate ext s) = upstreams s"
  shows "Upstream cfg \<noteq> []
       \<and> length (upstreams s) = length (Upstream cfg)
       \<and> 0 \<le> sint (upstream s) \<and> nat (sint (upstream s)) < length (upstreams s)
       \<and> rpc s = Inr (upstreams s ! nat (sint (upstream s)))
       \<and> (\<forall>tr s0. NewProxy ext cfg = (tr, Inr s0) \<longrightarrow> upstream s0 = 0)
       \<and> (\<forall>Check. \<exists>tr s'. checkUpstreams Check s = (tr, Inr s')
              \<and> upstreams s' = upstreams s
              \<and> 0 \<le> sint (upstream s') \<and> nat (sint (upstream s')) < length (upstreams s'))"
proof -
  have inv: "length (upstreams s) = length (Upstream cfg) \<and> upstreams s \<noteq> []
       \<and> 0 \<le> sint (upstream s) \<and> nat (sint (upstream s)) < length (upstreams s)"
    by (rule reachable_upstream [OF assms(1,3,2)])
  then have some: "Upstream cfg \<noteq> []"
    by auto
  have bound: "length (upstreams s) \<le> 2 ^ 31"
    using inv assms(2) by simp
  have call: "rpc s = Inr (upstreams s ! nat (sint (upstream s)))"
    using inv by (simp add: rpc_def index_def)
  have start: "\<forall>tr s0. NewProxy ext cfg = (tr, Inr s0) \<longrightarrow> upstream s0 = 0"
    using NewProxy_upstream(1) [OF _ assms(3)] by blast
  have sweep: "\<forall>Check. \<exists>tr s'. checkUpstreams Check s = (tr, Inr s')
              \<and> upstreams s' = upstreams s
              \<and> 0 \<le> sint (upstream s') \<and> nat (sint (upstream s')) < length (upstreams s')"
    using checkUpstreams_valid [of s] inv bound by blast
  show ?thesis
    using inv some call start sweep by blast
qed

theorem rpc_never_out_of_bounds_witness:
  "(\<exists>tr. NewProxy example_ext example_cfg
           = (tr, Inr (example_proxy\<lparr>blockTemplate := Some example_template\<rparr>)))
   \<and> upstream (example_proxy\<lparr>blockTemplate := Some example_template\<rparr>) = 0
   \<and> length (Upstream example_cfg) = 3
   \<and> rpc (example_proxy\<lparr>blockTemplate := Some example_template\<rparr>)
       = Inr \<lparr>RPCClient.Name = ''A'', Url = ''http://a:8545''\<rparr>"
proof -
  have made: "reachable example_ext example_cfg
               (example_proxy\<lparr>blockTemplate := Some example_template\<rparr>)"
    using NewProxy_example by (rule reachable.constructed)
  have bound: "length (Upstream example_cfg) \<le> 2 ^ 31"
    by (simp add: example_cfg_def)
  have frame: "\<forall>s. upstream (fetchBlockTemplate example_ext s) = upstream s
            \<and> upstreams (fetchBlockTemplate example_ext s) = upstreams s"
    by (simp add: example_ext_def)
  have "length (Upstream example_cfg) = 3"
    by (simp add: example_cfg_def)
  moreover have "upstreams (example_proxy\<lparr>blockTemplate := Some example_template\<rparr>)
                   ! nat (sint (upstream (example_proxy\<lparr>blockTemplate := Some example_template\<rparr>)))
                 = \<lparr>RPCClient.Name = ''A'', Url = ''http://a:8545''\<rparr>"
    by (simp add: example_proxy_def)
  ultimately show ?thesis
    using rpc_never_out_of_bounds [OF made bound frame] NewProxy_example
    by (simp add: example_proxy_def)
qed

subsection \<open>The clean timer\<close>

text \<open>A turn of the clean loop that returns has reset the clean timer, and only that.\<close>

lemma cleanTick_effects:
  assumes "cleanTick r ks hs = (tr, Inr hs')"
  shows "tr = [TimerReset cleanTimer r]"
  using assms
  by (auto simp: cleanTick_def bind_def lift_def emit_def ret_def split: prod.splits sum.splits)

lemma cleanLoop_fires_step:
  assumes "cleanTick r ks hs = (tr, Inr hs')"
  shows "cleanLoop_fires r ((ks, d) # turns) now (Some t) hs
           = max now t # cleanLoop_fires r turns (max now t + d) (Some (max now t + d + r)) hs'"
  using assms cleanTick_effects [OF assms] by (simp add: Let_def)

lemma cleanLoop_fires_first:
  assumes "cleanLoop_fires r turns now (Some t) hs \<noteq> []"
  shows "hd (cleanLoop_fires r turns now (Some t) hs) = max now t"
proof (cases turns)
  case Nil
  with assms show ?thesis by simp
next
  case (Cons turn turns')
  obtain ks d where "turn = (ks, d)"
    by (cases turn)
  with Cons show ?thesis
    by (simp add: Let_def split: prod.splits sum.splits)
qed

lemma cleanLoop_fires_some:
  assumes "turns \<noteq> []"
  shows "cleanLoop_fires r turns now (Some t) hs \<noteq> []"
proof (cases turns)
  case Nil
  with assms show ?thesis by simp
next
  case (Cons turn turns')
  obtain ks d where "turn = (ks, d)"
    by (cases turn)
  with Cons show ?thesis
    by (simp add: Let_def split: prod.splits sum.splits)
qed

lemma cleanLoop_fires_next:
  assumes "Suc n < length (cleanLoop_fires r turns now (Some t) hs)"
  shows "cleanLoop_fires r turns now (Some t) hs ! Suc n
           = cleanLoop_fires r turns now (Some t) hs ! n + snd (turns ! n) + max 0 r"
  using assms
proof (induction turns arbitrary: n now t hs)
  case Nil
  then show ?case by simp
next
  case (Cons turn turns)
  obtain ks d where turn: "turn = (ks, d)"
    by (cases turn)
  obtain tr res where tick: "cleanTick r ks hs = (tr, res)"
    by (cases "cleanTick r ks hs")
  show ?case
  proof (cases res)
    case (Inl e)
    then have "cleanLoop_fires r (turn # turns) now (Some t) hs = [max now t]"
      using turn tick by (simp add: Let_def)
    with Cons.prems show ?thesis by simp
  next
    case (Inr hs')
    define fire where "fire = max now t"
    define rest where "rest = cleanLoop_fires r turns (fire + d) (Some (fire + d + r)) hs'"
    have unfold: "cleanLoop_fires r (turn # turns) now (Some t) hs = fire # rest"
      unfolding turn fire_def rest_def using tick Inr by (intro cleanLoop_fires_step) simp
    have len: "n < length rest"
      using Cons.prems unfold by simp
    show ?thesis
    proof (cases n)
      case 0
      have "rest \<noteq> []"
        using len by auto
      then have "hd rest = max (fire + d) (fire + d + r)"
        unfolding rest_def by (rule cleanLoop_fires_first)
      then have "rest ! 0 = fire + d + max 0 r"
        using \<open>rest \<noteq> []\<close> by (simp add: hd_conv_nth max_def)
      then show ?thesis
        using unfold 0 turn by simp
    next
      case (Suc m)
      have "rest ! Suc m = rest ! m + snd (turns ! m) + max 0 r"
        using len Suc unfolding rest_def by (intro Cons.IH) simp
      then show ?thesis
        using unfold Suc by simp
    qed
  qed
qed

lemma clean_range_nonil:
  assumes "clean_range ks (h, m) = Inr (h', m')" and "\<forall>k. m k \<noteq> Some Nil_ref"
  shows "\<forall>k. m' k \<noteq> Some Nil_ref"
  using clean_range_shrinks [OF assms(1)] assms(2) by (metis option.distinct(1))

lemma cleanLoop_fires_length:
  assumes "\<forall>k. workDiff s k \<noteq> Some Nil_ref"
  shows "length (cleanLoop_fires r turns now (Some t) (h, s)) = length turns"
  using assms
proof (induction turns arbitrary: now t h s)
  case Nil
  then show ?case by simp
next
  case (Cons turn turns)
  obtain ks d where turn: "turn = (ks, d)"
    by (cases turn)
  obtain h' m' where run: "clean_range ks (h, workDiff s) = Inr (h', m')"
    using clean_range_total [OF Cons.prems] by blast
  have tick: "cleanTick r ks (h, s) = ([TimerReset cleanTimer r], Inr (h', s\<lparr>workDiff := m'\<rparr>))"
    by (rule cleanTick_eq [OF run])
  have "\<forall>k. workDiff (s\<lparr>workDiff := m'\<rparr>) k \<noteq> Some Nil_ref"
    using clean_range_nonil [OF run Cons.prems] by simp
  then have "length (cleanLoop_fires r turns (max now t + d) (Some (max now t + d + r))
                       (h', s\<lparr>workDiff := m'\<rparr>)) = length turns"
    by (rule Cons.IH)
  then show ?case
    unfolding turn cleanLoop_fires_step [OF tick] by simp
qed

text \<open>Effects that touch no timer and start no timer loop.\<close>

lemma timer_deadline_append:
  "timer_deadline T now (xs @ ys) dl = timer_deadline T now ys (timer_deadline T now xs dl)"
  by (induction T now xs dl rule: timer_deadline.induct) simp_all

lemma timer_deadline_quiet:
  assumes "\<forall>x\<in>set tr. x = PolicyStart \<or> (\<exists>m. x = Log m) \<or> x = Go ListenSP \<or> x = Go ListenES"
  shows "timer_deadline T now tr dl = dl"
  using assms by (induction T now tr dl rule: timer_deadline.induct) auto

lemma filter_quiet:
  assumes "\<forall>x\<in>set tr. x = PolicyStart \<or> (\<exists>m. x = Log m) \<or> x = Go ListenSP \<or> x = Go ListenES"
  shows "filter (\<lambda>e. \<exists>r. e = Go (cleanLoop r)) tr = []"
  using assms by (auto simp: filter_empty_conv)

text \<open>
  C8. When \<^verbatim>\<open>NewProxy\<close> returns, the clean timer it created at time \<open>t0\<close> is set to
  \<open>t0\<close> plus the parsed clean interval, and the one clean loop it started holds the
  parsed block-refresh interval. Every turn of that loop that returns resets the clean
  timer to the time of the reset plus the refresh interval. So, for any run of the loop:
  the first sweep starts when the clean interval has passed (or when the loop begins to
  wait, if that is later), and each later sweep starts the refresh interval after the
  body of the sweep before it finished (at once for an interval that is not positive);
  the clean interval plays no part after the first sweep. Without nil pointers in the
  map every turn takes place.
\<close>

theorem cleanLoop_interval:
  assumes "NewProxy ext cfg = (tr, Inr s)"
  shows "\<exists>cleanIntv refreshIntv.
           MustParseDuration ext (CleanInterval (Proxy cfg)) = Inr cleanIntv
         \<and> MustParseDuration ext (BlockRefreshInterval (Proxy cfg)) = Inr refreshIntv
         \<and> timer_deadline cleanTimer t0 tr None = Some (t0 + cleanIntv)
         \<and> filter (\<lambda>e. \<exists>r. e = Go (cleanLoop r)) tr = [Go (cleanLoop refreshIntv)]
         \<and> (\<forall>ks hs tr1 hs1 t1 dl. cleanTick refreshIntv ks hs = (tr1, Inr hs1) \<longrightarrow>
               timer_deadline cleanTimer t1 tr1 dl = Some (t1 + refreshIntv))
         \<and> (\<forall>turns now h s1.
               (turns \<noteq> [] \<longrightarrow>
                  hd (cleanLoop_fires refreshIntv turns now
                        (timer_deadline cleanTimer t0 tr None) (h, s1))
                    = max now (t0 + cleanIntv))
             \<and> (\<forall>n. Suc n < length (cleanLoop_fires refreshIntv turns now
                                     (timer_deadline cleanTimer t0 tr None) (h, s1)) \<longrightarrow>
                  cleanLoop_fires refreshIntv turns now
                      (timer_deadline cleanTimer t0 tr None) (h, s1) ! Suc n
                    = cleanLoop_fires refreshIntv turns now
                        (timer_deadline cleanTimer t0 tr None) (h, s1) ! n
                      + snd (turns ! n) + max 0 refreshIntv)
             \<and> ((\<forall>k. workDiff s1 k \<noteq> Some Nil_ref) \<longrightarrow>
                  length (cleanLoop_fires refreshIntv turns now
                            (timer_deadline cleanTimer t0 tr None) (h, s1)) = length turns))"
proof -
  obtain pre refreshIntv cleanIntv checkIntv stateUpdateIntv
    where pre: "\<forall>x\<in>set pre. x = PolicyStart \<or> (\<exists>m. x = Log m)
                        \<or> x = Go ListenSP \<or> x = Go ListenES"
      and refresh: "MustParseDuration ext (BlockRefreshInterval (Proxy cfg)) = Inr refreshIntv"
      and clean: "MustParseDuration ext (CleanInterval (Proxy cfg)) = Inr cleanIntv"
      and tr: "tr = pre @ [Call_fetchBlockTemplate,
                 NewTimer refreshTimer refreshIntv, Log ''Set block refresh every %v'',
                 NewTimer cleanTimer cleanIntv,
                 NewTimer checkTimer checkIntv,
                 NewTimer stateUpdateTimer stateUpdateIntv,
                 Go (cleanLoop refreshIntv), Go (refreshLoop refreshIntv),
                 Go (checkLoop checkIntv), Go (stateUpdateLoop stateUpdateIntv)]"
    using NewProxy_trace [OF assms] by blast
  have created: "timer_deadline cleanTimer t0 tr None = Some (t0 + cleanIntv)"
    unfolding tr timer_deadline_append timer_deadline_quiet [OF pre] by simp
  have loop: "filter (\<lambda>e. \<exists>r. e = Go (cleanLoop r)) tr = [Go (cleanLoop refreshIntv)]"
    unfolding tr filter_append filter_quiet [OF pre] by simp
  have reset: "timer_deadline cleanTimer t1 tr1 dl = Some (t1 + refreshIntv)"
    if "cleanTick refreshIntv ks hs = (tr1, Inr hs1)" for ks hs tr1 hs1 t1 dl
    using cleanTick_effects [OF that] by simp
  have first: "hd (cleanLoop_fires refreshIntv turns now
                        (timer_deadline cleanTimer t0 tr None) (h, s1))
                 = max now (t0 + cleanIntv)" if "turns \<noteq> []" for turns now h s1
    unfolding created using cleanLoop_fires_some [OF that] by (intro cleanLoop_fires_first)
  have later: "cleanLoop_fires refreshIntv turns now
                      (timer_deadline cleanTimer t0 tr None) (h, s1) ! Suc n
                    = cleanLoop_fires refreshIntv turns now
                        (timer_deadline cleanTimer t0 tr None) (h, s1) ! n
                      + snd (turns ! n) + max 0 refreshIntv"
    if "Suc n < length (cleanLoop_fires refreshIntv turns now
                                     (timer_deadline cleanTimer t0 tr None) (h, s1))"
    for turns now h s1 n
    using that unfolding created by (rule cleanLoop_fires_next)
  have every: "length (cleanLoop_fires refreshIntv turns now
                            (timer_deadline cleanTimer t0 tr None) (h, s1)) = length turns"
    if "\<forall>k. workDiff s1 k \<noteq> Some Nil_ref" for turns now h s1
    unfolding created using that by (rule cleanLoop_fires_length)
  show ?thesis
  proof (rule exI [of _ cleanIntv], rule exI [of _ refreshIntv], intro conjI allI impI)
    show "MustParseDuration ext (CleanInterval (Proxy cfg)) = Inr cleanIntv"
      by (rule clean)
    show "MustParseDuration ext (BlockRefreshInterval (Proxy cfg)) = Inr refreshIntv"
      by (rule refresh)
    show "timer_deadline cleanTimer t0 tr None = Some (t0 + cleanIntv)"
      by (rule created)
    show "filter (\<lambda>e. \<exists>r. e = Go (cleanLoop r)) tr = [Go (cleanLoop refreshIntv)]"
      by (rule loop)
  qed (use reset first later every in blast)+
qed

theorem cleanLoop_interval_witness:
  "MustParseDuration example_ext (CleanInterval (Proxy example_cfg)) = Inr 600000000000
   \<and> MustParseDuration example_ext (BlockRefreshInterval (Proxy example_cfg)) = Inr 120000000
   \<and> timer_deadline cleanTimer 0 (fst (NewProxy example_ext example_cfg)) None
       = Some 600000000000
   \<and> cleanLoop_fires 120000000 example_turns 0 (Some 600000000000)
        (example_store, example_proxy\<lparr>workDiff := example_workDiff\<rparr>)
       = [600000000000, 600121000000, 600242000000]"
proof -
  obtain cleanIntv refreshIntv
    where clean: "MustParseDuration example_ext (CleanInterval (Proxy example_cfg)) = Inr cleanIntv"
      and refresh: "MustParseDuration example_ext (BlockRefreshInterval (Proxy example_cfg))
                      = Inr refreshIntv"
      and created: "timer_deadline cleanTimer 0 (fst (NewProxy example_ext example_cfg)) None
                      = Some (0 + cleanIntv)"
    using cleanLoop_interval [of example_ext example_cfg "fst (NewProxy example_ext example_cfg)"
        "example_proxy\<lparr>blockTemplate := Some example_template\<rparr>" 0]
      NewProxy_example by auto
  have c: "cleanIntv = 600000000000" and r: "refreshIntv = 120000000"
    using clean refresh by (simp_all add: example_ext_def example_cfg_def example_parse_def)
  have "cleanLoop_fires 120000000 example_turns 0 (Some 600000000000)
        (example_store, example_proxy\<lparr>workDiff := example_workDiff\<rparr>)
       = [600000000000, 600121000000, 600242000000]"
    by (simp add: example_turns_def example_workDiff_def example_store_def cleanTick_def
        clean_entry_def bind_def lift_def emit_def ret_def Let_def)
  then show ?thesis
    using clean refresh created c r by simp
qed

end
